theory Spec2Isabelle
  imports Main "HOL-Library.Multiset"
begin

section \<open>Errors\<close>

text \<open>
  The source raises plain \<open>Exception\<close>, \<open>IOError\<close> and the interpreter's own errors.
  Each raise site gets one constructor, named after the specification's taxonomy where
  the specification names that failure:
  \<^item> \<open>ClosedSourceError\<close>: the \<open>IOError\<close> of \<open>__asert_open\<close>;
  \<^item> \<open>RegionOutOfBoundsError\<close>: the exceptions of \<open>get_block_aligned_read_roi\<close> and of the
    validation loop of \<open>process_rois\<close>;
  \<^item> \<open>OutOfBoundsError\<close>: the bounds failure of the public \<open>read\<close>;
  \<^item> \<open>BufferShapeError\<close>: the \<open>IOError\<close> of \<open>_read\<close> on a buffer of the wrong shape;
  \<^item> \<open>InvalidTileIndexError\<close>, \<open>TileOverflowError\<close>, \<open>TileShapeMismatchError\<close>: the three
    exceptions of \<open>write_block\<close>, in the order of the source;
  \<^item> \<open>WriterClosedError\<close>: the failure of \<open>self._handle.GetRasterBand\<close> in \<open>write_block\<close>
    when \<open>close\<close> has set the handle to \<open>None\<close>;
  \<^item> \<open>BackendIOError\<close>: a failure of the raster backend;
  \<^item> \<open>IndexError\<close>, \<open>ZeroDivisionError\<close>, \<open>ValueError\<close>, \<open>AssertionError\<close>: raised by
    Python itself (indexing, \<open>/\<close>, \<open>np.zeros\<close>, \<open>assert\<close>).
\<close>

datatype error =
    ClosedSourceError
  | RegionOutOfBoundsError
  | OutOfBoundsError
  | BufferShapeError
  | InvalidTileIndexError
  | TileOverflowError
  | TileShapeMismatchError
  | WriterClosedError
  | SourceOpenError
  | BackendIOError
  | IndexError
  | ZeroDivisionError
  | ValueError
  | AssertionError

section \<open>Rectangle\<close>

text \<open>
  Modelled from the spec: the class \<open>Rectangle\<close> of \<open>delta.imagery.rectangle\<close>, which
  \<open>tiff.py\<close> imports and which is not among the source files. The specification gives
  the fields \<open>min_x, min_y, max_x, max_y\<close> (integers, half-open), \<open>width = max_x - min_x\<close>,
  \<open>height = max_y - min_y\<close>, the intersection as the component-wise maximum of the minima
  and minimum of the maxima, and containment as "the other rectangle lies entirely within
  the bounds", which is read here as the comparison of the four coordinates (an empty
  rectangle placed inside the bounds is contained without further condition).
  The constructor call \<open>Rectangle(x, y, width=w, height=h)\<close> is the rectangle with that
  origin, width and height.
\<close>

record rect =
  min_x :: int
  min_y :: int
  max_x :: int
  max_y :: int

definition width :: "rect \<Rightarrow> int" where
  "width r = max_x r - min_x r"

definition height :: "rect \<Rightarrow> int" where
  "height r = max_y r - min_y r"

definition Rectangle :: "int \<Rightarrow> int \<Rightarrow> int \<Rightarrow> int \<Rightarrow> rect" where
  "Rectangle x y w h = \<lparr>min_x = x, min_y = y, max_x = x + w, max_y = y + h\<rparr>"

definition get_intersection :: "rect \<Rightarrow> rect \<Rightarrow> rect" where
  "get_intersection r other =
     \<lparr>min_x = max (min_x r) (min_x other), min_y = max (min_y r) (min_y other),
      max_x = min (max_x r) (max_x other), max_y = min (max_y r) (max_y other)\<rparr>"

definition contains_rect :: "rect \<Rightarrow> rect \<Rightarrow> bool" where
  "contains_rect r other \<longleftrightarrow>
     min_x r \<le> min_x other \<and> min_y r \<le> min_y other \<and>
     max_x other \<le> max_x r \<and> max_y other \<le> max_y r"

text \<open>The invariant the specification's data model puts on a rectangle.\<close>

definition rect_ok :: "rect \<Rightarrow> bool" where
  "rect_ok r \<longleftrightarrow> min_x r \<le> max_x r \<and> min_y r \<le> max_y r"

section \<open>The opened image\<close>

text \<open>
  The state of a \<open>TiffImage\<close> object. \<open>close\<close> sets \<open>_handles\<close>, \<open>_band_map\<close> and \<open>_paths\<close>
  to \<open>None\<close>; \<open>is_open\<close> is "\<open>_handles\<close> is not \<open>None\<close>". \<open>band_map\<close> is the list of
  (file index, 1-based band index) pairs built by \<open>__init__\<close>.

  The accessors \<open>width()\<close> and \<open>height()\<close> belong to the base class \<open>DeltaImage\<close>, which is
  not among the source files: the two extents are fields of the model. \<open>gdal_block_size\<close>
  is what GDAL's \<open>GetBlockSize\<close> reports for a (file, band) pair, and \<open>gdal_read\<close> is the
  backend's \<open>ReadAsArray(xoff, yoff, xsize, ysize)\<close> on such a pair: \<open>None\<close> when the read
  fails, else the pixels it delivers, indexed by row and column of the block read.
\<close>

record image =
  is_open :: bool
  band_map :: "(nat \<times> nat) list"
  img_width :: int
  img_height :: int
  gdal_block_size :: "nat \<times> nat \<Rightarrow> int \<times> int"
  gdal_read :: "nat \<times> nat \<Rightarrow> int \<Rightarrow> int \<Rightarrow> int \<Rightarrow> int \<Rightarrow> (nat \<Rightarrow> nat \<Rightarrow> int) option"

text \<open>Python's \<open>xs[i]\<close>: a negative index counts from the end, out of range raises.\<close>

definition py_index :: "'a list \<Rightarrow> int \<Rightarrow> error + 'a" where
  "py_index xs i =
     (if 0 \<le> i \<and> i < int (length xs) then Inr (xs ! nat i)
      else if i < 0 \<and> 0 \<le> int (length xs) + i then Inr (xs ! nat (int (length xs) + i))
      else Inl IndexError)"

definition gdal_band :: "image \<Rightarrow> int \<Rightarrow> error + (nat \<times> nat)" where
  "gdal_band img band = py_index (band_map img) band"

definition num_bands :: "image \<Rightarrow> error + nat" where
  "num_bands img = (if \<not> is_open img then Inl ClosedSourceError else Inr (length (band_map img)))"

text \<open>\<open>Rectangle(0, 0, width=self.width(), height=self.height())\<close>\<close>

definition bounds :: "image \<Rightarrow> rect" where
  "bounds img = Rectangle 0 0 (img_width img) (img_height img)"

text \<open>
  \<open>int(math.ceil(a / b))\<close> and \<open>int(math.floor(a / b))\<close> on Python integers: \<open>/\<close> is the
  true division, which raises on a zero divisor (written out where it is used); its
  floating-point result is taken as exact, which it is for pixel coordinates.
\<close>

definition ceil_div :: "int \<Rightarrow> int \<Rightarrow> int" where
  "ceil_div a b = - ((- a) div b)"

definition floor_div :: "int \<Rightarrow> int \<Rightarrow> int" where
  "floor_div a b = a div b"

text \<open>
  \<open>block_info\<close>: GDAL's block size with its two components exchanged, and the number of
  blocks.
\<close>

definition block_info :: "image \<Rightarrow> int \<Rightarrow> error + ((int \<times> int) \<times> (int \<times> int))" where
  "block_info img band =
     (if \<not> is_open img then Inl ClosedSourceError
      else case gdal_band img band of
        Inl e \<Rightarrow> Inl e
      | Inr band_handle \<Rightarrow>
          (let block_size = gdal_block_size img band_handle in
           if snd block_size = 0 then Inl ZeroDivisionError
           else if fst block_size = 0 then Inl ZeroDivisionError
           else
             (let num_blocks_x = ceil_div (img_height img) (snd block_size);
                  num_blocks_y = ceil_div (img_width img) (fst block_size)
              in Inr ((snd block_size, fst block_size), (num_blocks_x, num_blocks_y)))))"

section \<open>Block aligner\<close>

definition get_block_aligned_read_roi :: "image \<Rightarrow> rect \<Rightarrow> error + rect" where
  "get_block_aligned_read_roi img desired_roi =
     (if \<not> is_open img then Inl ClosedSourceError
      else if \<not> contains_rect (bounds img) desired_roi then Inl RegionOutOfBoundsError
      else case block_info img 0 of
        Inl e \<Rightarrow> Inl e
      | Inr (block_size, unused_num_blocks) \<Rightarrow>
          (let start_block_x = floor_div (min_x desired_roi) (fst block_size);
               start_block_y = floor_div (min_y desired_roi) (snd block_size);
               stop_block_x = floor_div (max_x desired_roi - 1) (fst block_size);
               stop_block_y = floor_div (max_y desired_roi - 1) (snd block_size);
               start_x = start_block_x * fst block_size;
               start_y = start_block_y * snd block_size;
               w = (stop_block_x - start_block_x + 1) * fst block_size;
               h = (stop_block_y - start_block_y + 1) * snd block_size;
               ans = Rectangle start_x start_y w h
           in Inr (get_intersection ans (bounds img))))"

text \<open>
  The formula of the specification, written from its words: \<open>bx\<close> is the block size along
  the x axis and \<open>by\<close> the block size along the y axis.
\<close>

definition spec_aligned :: "int \<Rightarrow> int \<Rightarrow> rect \<Rightarrow> rect" where
  "spec_aligned bx by desired =
     Rectangle (floor_div (min_x desired) bx * bx) (floor_div (min_y desired) by * by)
       ((floor_div (max_x desired - 1) bx - floor_div (min_x desired) bx + 1) * bx)
       ((floor_div (max_y desired - 1) by - floor_div (min_y desired) by + 1) * by)"

text \<open>A rectangle made of whole blocks: its four edges lie on block boundaries.\<close>

definition block_aligned :: "int \<Rightarrow> int \<Rightarrow> rect \<Rightarrow> bool" where
  "block_aligned bx by r \<longleftrightarrow>
     bx dvd min_x r \<and> bx dvd max_x r \<and> by dvd min_y r \<and> by dvd max_y r"

text \<open>The block size of band 0 along x and along y, as \<open>block_info\<close> orders it.\<close>

definition block_x :: "image \<Rightarrow> int" where
  "block_x img = snd (gdal_block_size img (hd (band_map img)))"

definition block_y :: "image \<Rightarrow> int" where
  "block_y img = fst (gdal_block_size img (hd (band_map img)))"

text \<open>An image the backend can have opened: at least one band, positive block sizes.\<close>

definition image_ok :: "image \<Rightarrow> bool" where
  "image_ok img \<longleftrightarrow> is_open img \<and> band_map img \<noteq> [] \<and> 0 < block_x img \<and> 0 < block_y img"

section \<open>Concrete inputs\<close>

text \<open>
  A three-band image of 100 by 100 pixels whose backend reports blocks of 16 by 32 and
  delivers, for every pixel, its offset along GDAL's x axis plus 1000 times its offset along
  GDAL's y axis.
\<close>

definition example_image :: image where
  "example_image = \<lparr>is_open = True, band_map = [(0, 1), (0, 2), (0, 3)], img_width = 100, img_height = 100,
     gdal_block_size = (\<lambda>_. (16, 32)),
     gdal_read = (\<lambda>_ xoff yoff xsize ysize.
        Some (\<lambda>row col. (xoff + int col) + 1000 * (yoff + int row)))\<rparr>"

section \<open>Tile writer\<close>

text \<open>
  A two-dimensional numpy array as \<open>write_block\<close> receives it: \<open>shape0\<close> and \<open>shape1\<close> are
  \<open>data.shape[0]\<close> and \<open>data.shape[1]\<close>, \<open>px\<close> the pixel values.
\<close>

record array2 =
  shape0 :: nat
  shape1 :: nat
  px :: "nat \<Rightarrow> nat \<Rightarrow> int"

text \<open>
  One call of GDAL's \<open>WriteArray(array, xoff, yoff)\<close> on the band \<open>GetRasterBand(gdal_band_no)\<close>.
\<close>

record gdal_write =
  gdal_band_no :: int
  xoff :: int
  yoff :: int
  wdata :: array2

text \<open>
  The state of a \<open>TiffWriter\<close>: the four fields set by \<open>__init__\<close>, whether \<open>_handle\<close> is
  a dataset or \<open>None\<close>, and the dataset the backend created: its creation options, its two
  sizes as GDAL names them (\<open>driver.Create(path, height, width, ...)\<close>: GDAL's x size is the
  writer's height, GDAL's y size the writer's width), its number of bands and the writes it
  has received, oldest first.
\<close>

record tiff_writer =
  w_width :: int
  w_height :: int
  w_tile_width :: int
  w_tile_height :: int
  handle_open :: bool
  w_options :: "string list"
  raster_x_size :: int
  raster_y_size :: int
  raster_count :: int
  written :: "gdal_write list"

text \<open>Python's \<open>str\<close> on an integer.\<close>

definition digit :: "nat \<Rightarrow> char" where
  "digit d = ''0123456789'' ! d"

fun str_nat :: "nat \<Rightarrow> string" where
  "str_nat n = (if n < 10 then [digit n] else str_nat (n div 10) @ [digit (n mod 10)])"

definition str_int :: "int \<Rightarrow> string" where
  "str_int i = (if i < 0 then CHR ''-'' # str_nat (nat (- i)) else str_nat (nat i))"

definition MIN_SIZE_FOR_TILES :: int where
  "MIN_SIZE_FOR_TILES = 100"

text \<open>The list \<open>options\<close> that \<open>__init__\<close> builds and hands to \<open>driver.Create\<close>.\<close>

definition creation_options :: "int \<Rightarrow> int \<Rightarrow> int \<Rightarrow> int \<Rightarrow> string list" where
  "creation_options width' height' tile_width tile_height =
     [''COMPRESS=LZW'', ''BigTIFF=IF_SAFER'', ''INTERLEAVE=BAND'']
     @ [''BLOCKXSIZE='' @ str_int tile_height, ''BLOCKYSIZE='' @ str_int tile_width]
     @ (if width' > MIN_SIZE_FOR_TILES \<or> height' > MIN_SIZE_FOR_TILES then [''TILED=YES''] else [])"

text \<open>
  \<open>TiffWriter.__init__\<close>. \<open>created\<close> says whether the backend's \<open>driver.Create\<close> returned a
  dataset. Setting the no-data value and the metadata does not touch the fields modelled
  here.
\<close>

definition TiffWriter :: "int \<Rightarrow> int \<Rightarrow> int \<Rightarrow> int \<Rightarrow> int \<Rightarrow> bool \<Rightarrow> error + tiff_writer" where
  "TiffWriter width' height' num_bands' tile_width tile_height created =
     (let options = creation_options width' height' tile_width tile_height in
      if \<not> created then Inl SourceOpenError
      else Inr \<lparr>w_width = width', w_height = height',
                w_tile_width = tile_width, w_tile_height = tile_height,
                handle_open = True, w_options = options,
                raster_x_size = height', raster_y_size = width', raster_count = num_bands',
                written = []\<rparr>)"

definition close :: "tiff_writer \<Rightarrow> tiff_writer" where
  "close wr = (if handle_open wr then wr\<lparr>handle_open := False\<rparr> else wr)"

definition get_num_tiles :: "tiff_writer \<Rightarrow> error + (int \<times> int)" where
  "get_num_tiles wr =
     (if w_tile_width wr = 0 then Inl ZeroDivisionError
      else if w_tile_height wr = 0 then Inl ZeroDivisionError
      else Inr (ceil_div (w_width wr) (w_tile_width wr), ceil_div (w_height wr) (w_tile_height wr)))"

text \<open>
  \<open>write_block\<close>. The checks come first, in the order of the source; then
  \<open>self._handle.GetRasterBand(band + 1)\<close>, which fails on the \<open>None\<close> that \<open>close\<close> leaves and
  gives \<open>None\<close> (so that the \<open>assert\<close> fails) for a band the dataset does not have; then the
  write.
\<close>

definition write_block :: "tiff_writer \<Rightarrow> array2 \<Rightarrow> int \<Rightarrow> int \<Rightarrow> int \<Rightarrow> error + tiff_writer" where
  "write_block wr data' block_x' block_y' band =
     (case get_num_tiles wr of
        Inl e \<Rightarrow> Inl e
      | Inr num_tiles \<Rightarrow>
          if block_x' \<ge> fst num_tiles \<or> block_y' \<ge> snd num_tiles then Inl InvalidTileIndexError
          else
            (let is_edge_block = (block_x' = fst num_tiles - 1 \<or> block_y' = snd num_tiles - 1);
                 max_x' = block_x' * w_tile_width wr + int (shape0 data');
                 max_y' = block_y' * w_tile_height wr + int (shape1 data')
             in
               if is_edge_block \<and> (max_x' > w_width wr \<or> max_y' > w_height wr)
                 then Inl TileOverflowError
               else if \<not> is_edge_block \<and>
                   (int (shape0 data') \<noteq> w_tile_width wr \<or> int (shape1 data') \<noteq> w_tile_height wr)
                 then Inl TileShapeMismatchError
               else if \<not> handle_open wr then Inl WriterClosedError
               else if \<not> (1 \<le> band + 1 \<and> band + 1 \<le> raster_count wr) then Inl AssertionError
               else Inr (wr\<lparr>written := written wr @
                      [\<lparr>gdal_band_no = band + 1,
                        xoff = block_y' * w_tile_height wr,
                        yoff = block_x' * w_tile_width wr,
                        wdata = data'\<rparr>]\<rparr>)))"

text \<open>The tile grid of a writer, as \<open>get_num_tiles\<close> computes it.\<close>

definition num_tiles_x :: "tiff_writer \<Rightarrow> int" where
  "num_tiles_x wr = ceil_div (w_width wr) (w_tile_width wr)"

definition num_tiles_y :: "tiff_writer \<Rightarrow> int" where
  "num_tiles_y wr = ceil_div (w_height wr) (w_tile_height wr)"

text \<open>
  The pixel offset of a backend write along the writer's own axes: the dataset's x axis is
  the writer's y axis (\<open>raster_x_size\<close> is the writer's height), so the offset along the
  writer's x is GDAL's \<open>yoff\<close>.
\<close>

definition pixel_offset :: "gdal_write \<Rightarrow> int \<times> int" where
  "pixel_offset g = (yoff g, xoff g)"
text \<open>A writer of a 10 by 10 single-band image in tiles of 4 by 4, and blocks to write.\<close>

definition example_writer :: tiff_writer where
  "example_writer =
     \<lparr>w_width = 10, w_height = 10, w_tile_width = 4, w_tile_height = 4, handle_open = True,
      w_options = creation_options 10 10 4 4, raster_x_size = 10, raster_y_size = 10,
      raster_count = 1, written = []\<rparr>"

definition block_of :: "nat \<Rightarrow> nat \<Rightarrow> array2" where
  "block_of a b = \<lparr>shape0 = a, shape1 = b, px = (\<lambda>i j. 0)\<rparr>"
section \<open>Reading pixels\<close>

text \<open>
  A three-dimensional numpy array: its shape \<open>(dim0, dim1, dim2)\<close> and its elements.
\<close>

record ndarray3 =
  dim0 :: nat
  dim1 :: nat
  dim2 :: nat
  at3 :: "nat \<Rightarrow> nat \<Rightarrow> nat \<Rightarrow> int"

text \<open>\<open>np.zeros(shape=(a, b, c))\<close>\<close>

definition zeros :: "nat \<Rightarrow> nat \<Rightarrow> nat \<Rightarrow> ndarray3" where
  "zeros a b c = \<lparr>dim0 = a, dim1 = b, dim2 = c, at3 = (\<lambda>i j k. 0)\<rparr>"

text \<open>The backend filling the view \<open>buf[i, :, :]\<close>.\<close>

definition fill_plane :: "ndarray3 \<Rightarrow> nat \<Rightarrow> (nat \<Rightarrow> nat \<Rightarrow> int) \<Rightarrow> ndarray3" where
  "fill_plane buf i block = buf\<lparr>at3 := (\<lambda>a b c. if a = i then block b c else at3 buf a b c)\<rparr>"

text \<open>\<open>np.transpose(buf, [1, 2, 0])\<close>\<close>

definition transpose_120 :: "ndarray3 \<Rightarrow> ndarray3" where
  "transpose_120 buf =
     \<lparr>dim0 = dim1 buf, dim1 = dim2 buf, dim2 = dim0 buf, at3 = (\<lambda>x y b. at3 buf b x y)\<rparr>"

text \<open>
  A slice \<open>lo:hi\<close> along an axis of length \<open>d\<close>, as Python resolves it: a negative bound
  counts from the end, both bounds are clipped to the axis. The result is the first index
  taken and the number of indices taken.
\<close>

definition slice_bound :: "nat \<Rightarrow> int \<Rightarrow> nat" where
  "slice_bound d i = (if i < 0 then nat (max (i + int d) 0) else nat (min i (int d)))"

definition slice_axis :: "nat \<Rightarrow> int \<Rightarrow> int \<Rightarrow> nat \<times> nat" where
  "slice_axis d lo hi = (slice_bound d lo, slice_bound d hi - slice_bound d lo)"

text \<open>\<open>buf[x0:x1, y0:y1, :]\<close>\<close>

definition slice_xy :: "ndarray3 \<Rightarrow> int \<Rightarrow> int \<Rightarrow> int \<Rightarrow> int \<Rightarrow> ndarray3" where
  "slice_xy buf x0 x1 y0 y1 =
     (let sx = slice_axis (dim0 buf) x0 x1; sy = slice_axis (dim1 buf) y0 y1
      in \<lparr>dim0 = snd sx, dim1 = snd sy, dim2 = dim2 buf,
          at3 = (\<lambda>i j k. at3 buf (fst sx + i) (fst sy + j) k)\<rparr>)"

text \<open>
  The loop of \<open>_read\<close> over \<open>enumerate(bands)\<close>, from position \<open>i\<close>: the band handle is looked
  up, the view \<open>buf[i, :, :]\<close> is taken (an \<open>IndexError\<close> beyond the first axis), its shape is
  compared with \<open>(roi.width(), roi.height())\<close>, and the backend reads into it.
\<close>

fun read_bands :: "image \<Rightarrow> rect \<Rightarrow> nat \<Rightarrow> int list \<Rightarrow> ndarray3 \<Rightarrow> error + ndarray3" where
  "read_bands img roi i [] buf = Inr buf"
| "read_bands img roi i (b # bands) buf =
     (case gdal_band img b of
        Inl e \<Rightarrow> Inl e
      | Inr band_handle \<Rightarrow>
          if dim0 buf \<le> i then Inl IndexError
          else if (int (dim1 buf), int (dim2 buf)) \<noteq> (width roi, height roi) then Inl BufferShapeError
          else
            (case gdal_read img band_handle (min_y roi) (min_x roi) (height roi) (width roi) of
               None \<Rightarrow> Inl BackendIOError
             | Some block \<Rightarrow> read_bands img roi (i + 1) bands (fill_plane buf i block)))"

text \<open>
  \<open>_read\<close>. Without a buffer, \<open>np.zeros\<close> makes one of shape
  \<open>(self.num_bands(), roi.width(), roi.height())\<close>; its \<open>dtype\<close> argument asks for band 0 (an
  \<open>IndexError\<close> on an image without bands) and a negative extent is a \<open>ValueError\<close>.
\<close>

definition read' :: "image \<Rightarrow> rect \<Rightarrow> int list \<Rightarrow> ndarray3 option \<Rightarrow> error + ndarray3" where
  "read' img roi bands buf =
     (if \<not> is_open img then Inl ClosedSourceError
      else case (case buf of
                   Some b \<Rightarrow> Inr b
                 | None \<Rightarrow>
                     (case gdal_band img 0 of
                        Inl e \<Rightarrow> Inl e
                      | Inr _ \<Rightarrow>
                          if width roi < 0 \<or> height roi < 0 then Inl ValueError
                          else Inr (zeros (length (band_map img)) (nat (width roi)) (nat (height roi))))) of
             Inl e \<Rightarrow> Inl e
           | Inr buf0 \<Rightarrow>
               (case read_bands img roi 0 bands buf0 of
                  Inl e \<Rightarrow> Inl e
                | Inr filled \<Rightarrow> Inr (transpose_120 filled)))"

text \<open>
  Modelled from the spec: the public \<open>read\<close> of the base class \<open>DeltaImage\<close>
  (\<open>basic_sources\<close> is not among the source files). By the specification it fails with
  \<open>OutOfBoundsError\<close> if the region is not contained in the source's full extent, every
  accessor fails on a closed source, and the reading itself is \<open>_read\<close> (above, \<open>read'\<close>).
  \<open>process_rois\<close> calls it with the region alone: no band list stands for all bands in
  order, no buffer for a fresh one.
\<close>

definition read :: "image \<Rightarrow> rect \<Rightarrow> int list option \<Rightarrow> ndarray3 option \<Rightarrow> error + ndarray3" where
  "read img region bands out =
     (if \<not> is_open img then Inl ClosedSourceError
      else if \<not> contains_rect (bounds img) region then Inl OutOfBoundsError
      else read' img region
             (case bands of None \<Rightarrow> map int [0..<length (band_map img)] | Some bs \<Rightarrow> bs) out)"
text \<open>The shape of an array, and the shape of what a read returns.\<close>

definition shape :: "ndarray3 \<Rightarrow> nat \<times> nat \<times> nat" where
  "shape a = (dim0 a, dim1 a, dim2 a)"

definition result_shape :: "error + ndarray3 \<Rightarrow> error + nat \<times> nat \<times> nat" where
  "result_shape r = (case r of Inl e \<Rightarrow> Inl e | Inr a \<Rightarrow> Inr (shape a))"

text \<open>A band index that Python's indexing of \<open>_band_map\<close> accepts.\<close>

definition valid_band :: "image \<Rightarrow> int \<Rightarrow> bool" where
  "valid_band img b \<longleftrightarrow> - int (length (band_map img)) \<le> b \<and> b < int (length (band_map img))"

text \<open>The backend delivers the pixels of a region, for every band of the image.\<close>

definition backend_reads :: "image \<Rightarrow> rect \<Rightarrow> bool" where
  "backend_reads img roi \<longleftrightarrow>
     (\<forall>hb \<in> set (band_map img).
        gdal_read img hb (min_y roi) (min_x roi) (height roi) (width roi) \<noteq> None)"
section \<open>ROI batch scheduler\<close>

text \<open>
  \<open>process_rois\<close> copies the list it is given and pops from the copy, so the lists live in
  a store: \<open>cells\<close> maps the address of a list object to its elements, and the addresses
  below \<open>next_free\<close> are the allocated ones. \<open>copy.copy\<close> allocates a new list object with
  the same elements.
\<close>

record store =
  cells :: "nat \<Rightarrow> rect list"
  next_free :: nat

definition copy_list :: "store \<Rightarrow> nat \<Rightarrow> store \<times> nat" where
  "copy_list s a =
     (s\<lparr>cells := (cells s)(next_free s := cells s a), next_free := Suc (next_free s)\<rparr>, next_free s)"

text \<open>What is left of a list after \<open>pop(index)\<close>.\<close>

definition pop_at :: "nat \<Rightarrow> 'a list \<Rightarrow> 'a list" where
  "pop_at index xs = take index xs @ drop (Suc index) xs"

text \<open>
  The inner \<open>while index < len(block_rois)\<close> loop: an ROI the read region does not contain
  is stepped over; one it contains is popped from the list at the address \<open>block_rois\<close> and
  appended to \<open>applicable_rois\<close>.
\<close>

function collect_applicable ::
  "rect \<Rightarrow> nat \<Rightarrow> nat \<Rightarrow> store \<Rightarrow> rect list \<Rightarrow> store \<times> rect list" where
  "collect_applicable read_roi block_rois index s applicable_rois =
     (if index < length (cells s block_rois) then
        if \<not> contains_rect read_roi (cells s block_rois ! index)
        then collect_applicable read_roi block_rois (index + 1) s applicable_rois
        else collect_applicable read_roi block_rois index
               (s\<lparr>cells := (cells s)(block_rois := pop_at index (cells s block_rois))\<rparr>)
               (applicable_rois @ [cells s block_rois ! index])
      else (s, applicable_rois))"
  by pat_completeness auto
termination
  by (relation "measure (\<lambda>(read_roi, block_rois, index, s, applicable_rois).
        2 * length (cells s block_rois) - index)")
     (auto simp: pop_at_def)

declare collect_applicable.simps [simp del]

text \<open>
  The outer \<open>while block_rois\<close> loop. Each round computes the read region of the first
  remaining ROI, collects the ROIs it contains and submits the read: the job
  \<open>(read_roi, applicable_rois)\<close> is appended to \<open>jobs\<close>. A round that pops nothing would leave
  the list as it was, and the loop would not end: the result \<open>None\<close> stands for a run that
  never returns. An exception ends the loop with the jobs submitted so far.
\<close>

partial_function (option) submit_groups ::
  "image \<Rightarrow> nat \<Rightarrow> store \<Rightarrow> (rect \<times> rect list) list
     \<Rightarrow> (store \<times> (rect \<times> rect list) list \<times> error option) option" where
  "submit_groups img block_rois s jobs =
     (if cells s block_rois = [] then Some (s, jobs, None)
      else case get_block_aligned_read_roi img (hd (cells s block_rois)) of
          Inl e \<Rightarrow> Some (s, jobs, Some e)
        | Inr read_roi \<Rightarrow>
            (case collect_applicable read_roi block_rois 0 s [] of
               (s', applicable_rois) \<Rightarrow>
                 submit_groups img block_rois s' (jobs @ [(read_roi, applicable_rois)])))"

text \<open>
  The callback's arguments for one ROI of a group: the ROI and
  \<open>buf[x0:x0 + roi.width(), y0:y0 + roi.height(), :]\<close>.
\<close>

definition callback_args :: "rect \<Rightarrow> ndarray3 \<Rightarrow> rect \<Rightarrow> rect \<times> ndarray3" where
  "callback_args read_roi buf roi =
     (let x0 = min_x roi - min_x read_roi; y0 = min_y roi - min_y read_roi
      in (roi, slice_xy buf x0 (x0 + width roi) y0 (y0 + height roi)))"

text \<open>
  The loop over \<open>jobs\<close>: \<open>buf_exe.result()\<close> is the buffer of the job's read or raises its
  exception; the callback is invoked for every ROI of the group, in order. \<open>calls\<close> is the
  list of callback invocations made so far.
\<close>

fun consume_jobs ::
  "image \<Rightarrow> (rect \<times> rect list) list \<Rightarrow> (rect \<times> ndarray3) list
     \<Rightarrow> (rect \<times> ndarray3) list \<times> error option" where
  "consume_jobs img [] calls = (calls, None)"
| "consume_jobs img ((read_roi, rois) # jobs) calls =
     (case read img read_roi None None of
        Inl e \<Rightarrow> (calls, Some e)
      | Inr buf \<Rightarrow> consume_jobs img jobs (calls @ map (callback_args read_roi buf) rois))"

text \<open>
  What a run of \<open>process_rois\<close> leaves behind: the store, the jobs submitted to the
  executor (a job is the region read and the ROIs served from it), the callback invocations
  in order, and the exception raised, if any.
\<close>

record run =
  final_store :: store
  jobs_submitted :: "(rect \<times> rect list) list"
  calls_made :: "(rect \<times> ndarray3) list"
  raised :: "error option"

text \<open>
  \<open>process_rois\<close> with \<open>show_progress\<close> off. \<open>requested_rois\<close> is the address of the caller's
  list. The executor has one worker, which runs the submitted reads in order; a read's
  outcome is kept in its future until \<open>result()\<close> asks for it.
\<close>

definition process_rois :: "image \<Rightarrow> store \<Rightarrow> nat \<Rightarrow> run option" where
  "process_rois img s requested_rois =
     (if \<not> is_open img
      then Some \<lparr>final_store = s, jobs_submitted = [], calls_made = [], raised = Some ClosedSourceError\<rparr>
      else case copy_list s requested_rois of
        (s1, block_rois) \<Rightarrow>
          if \<not> list_all (contains_rect (bounds img)) (cells s1 requested_rois)
          then Some \<lparr>final_store = s1, jobs_submitted = [], calls_made = [],
                      raised = Some RegionOutOfBoundsError\<rparr>
          else
            (case submit_groups img block_rois s1 [] of
               None \<Rightarrow> None
             | Some (s2, jobs, Some e) \<Rightarrow>
                 Some \<lparr>final_store = s2, jobs_submitted = jobs, calls_made = [], raised = Some e\<rparr>
             | Some (s2, jobs, None) \<Rightarrow>
                 (case consume_jobs img jobs [] of
                    (calls, err) \<Rightarrow>
                      Some \<lparr>final_store = s2, jobs_submitted = jobs, calls_made = calls,
                             raised = err\<rparr>)))"

text \<open>The reads handed to the executor, and the ROIs the callback was invoked on, in order.\<close>

definition reads_issued :: "run \<Rightarrow> rect list" where
  "reads_issued r = map fst (jobs_submitted r)"

definition rois_delivered :: "run \<Rightarrow> rect list" where
  "rois_delivered r = map fst (calls_made r)"
text \<open>
  A group as the grouping loop forms it: a read region inside the image, which is the
  aligned region of one of the group's ROIs and contains all of them.
\<close>

definition group_ok :: "image \<Rightarrow> rect \<times> rect list \<Rightarrow> bool" where
  "group_ok img job \<longleftrightarrow>
     contains_rect (bounds img) (fst job) \<and> snd job \<noteq> [] \<and>
     (\<exists>first \<in> set (snd job). get_block_aligned_read_roi img first = Inr (fst job)) \<and>
     (\<forall>roi \<in> set (snd job). contains_rect (fst job) roi)"

text \<open>The ROI and the shape of the buffer of every callback invocation of a run.\<close>

definition call_shapes :: "run \<Rightarrow> (rect \<times> nat \<times> nat \<times> nat) list" where
  "call_shapes r = map (\<lambda>c. (fst c, shape (snd c))) (calls_made r)"

text \<open>A store holding one list, at address 0.\<close>

definition store_with :: "rect list \<Rightarrow> store" where
  "store_with rois = \<lparr>cells = (\<lambda>a. if a = 0 then rois else []), next_free = 1\<rparr>"

text \<open>The example image with a backend that fails on every read at GDAL's x offset 32.\<close>

definition failing_image :: image where
  "failing_image = example_image\<lparr>gdal_read :=
     (\<lambda>hb xoff yoff xsize ysize.
        if xoff = 32 then None else gdal_read example_image hb xoff yoff xsize ysize)\<rparr>"

text \<open>Three ROIs in three different blocks, and their aligned read regions.\<close>

definition roi1 :: rect where "roi1 = \<lparr>min_x = 0, min_y = 0, max_x = 10, max_y = 10\<rparr>"
definition roi2 :: rect where "roi2 = \<lparr>min_x = 40, min_y = 40, max_x = 50, max_y = 50\<rparr>"
definition roi3 :: rect where "roi3 = \<lparr>min_x = 70, min_y = 70, max_x = 80, max_y = 80\<rparr>"

definition region1 :: rect where "region1 = \<lparr>min_x = 0, min_y = 0, max_x = 32, max_y = 16\<rparr>"
definition region2 :: rect where "region2 = \<lparr>min_x = 32, min_y = 32, max_x = 64, max_y = 64\<rparr>"
definition region3 :: rect where "region3 = \<lparr>min_x = 64, min_y = 64, max_x = 96, max_y = 80\<rparr>"

text \<open>An ROI wider than high.\<close>

definition wide_roi :: rect where "wide_roi = \<lparr>min_x = 0, min_y = 0, max_x = 50, max_y = 20\<rparr>"
section \<open>Facts about rectangles and block arithmetic\<close>

lemma floor_mult_le: "0 < (b::int) \<Longrightarrow> floor_div a b * b \<le> a"
  unfolding floor_div_def by (metis mult.commute pos_mod_sign mult_div_mod_eq le_add_same_cancel1)

lemma le_ceil_mult: "0 < (b::int) \<Longrightarrow> a \<le> (floor_div (a - 1) b + 1) * b"
proof -
  assume b: "0 < b"
  define q where "q = (a - 1) div b"
  define r where "r = (a - 1) mod b"
  have "a - 1 = q * b + r" unfolding q_def r_def by simp
  moreover have "r < b" unfolding r_def using b by simp
  ultimately have "a \<le> q * b + b" by linarith
  then show ?thesis unfolding floor_div_def q_def by (simp add: algebra_simps)
qed

lemma dvd_le_floor: "0 < (b::int) \<Longrightarrow> b dvd m \<Longrightarrow> m \<le> a \<Longrightarrow> m \<le> floor_div a b * b"
  unfolding floor_div_def using zdiv_mono1 by fastforce

lemma floor_dvd: "0 < (b::int) \<Longrightarrow> b dvd m \<Longrightarrow> floor_div m b * b = m"
  unfolding floor_div_def by simp

lemma ceil_dvd: "0 < (b::int) \<Longrightarrow> b dvd m \<Longrightarrow> (floor_div (m - 1) b + 1) * b = m"
proof -
  assume b: "0 < b" and d: "b dvd m"
  then obtain k where k: "m = k * b" by (auto simp: dvd_def)
  have e: "m - 1 = (b - 1) + (k - 1) * b" using k by (simp add: algebra_simps)
  have "(b - 1 + (k - 1) * b) div b = (k - 1) + (b - 1) div b"
    using b by (simp only: div_mult_self1 [of b "b - 1" "k - 1"])
  moreover have "(b - 1) div b = 0" using b by (simp add: div_pos_pos_trivial)
  ultimately have "(b - 1 + (k - 1) * b) div b = k - 1" by simp
  then have "(m - 1) div b = k - 1" by (simp only: e)
  then show ?thesis unfolding floor_div_def using k by simp
qed

lemma dvd_ge_ceil: "0 < (b::int) \<Longrightarrow> b dvd m \<Longrightarrow> a \<le> m \<Longrightarrow> (floor_div (a - 1) b + 1) * b \<le> m"
proof -
  assume b: "0 < b" and d: "b dvd m" and le: "a \<le> m"
  have "(a - 1) div b \<le> (m - 1) div b" using le b by (simp add: zdiv_mono1)
  then have "(floor_div (a - 1) b + 1) * b \<le> (floor_div (m - 1) b + 1) * b"
    unfolding floor_div_def using b by (simp add: mult_right_mono)
  then show ?thesis using ceil_dvd [OF b d] by simp
qed

lemma block_info_ok:
  "image_ok img \<Longrightarrow> \<exists>nb. block_info img 0 = Inr ((block_x img, block_y img), nb)"
proof -
  assume ok: "image_ok img"
  then obtain hb rest where bm: "band_map img = hb # rest"
    by (cases "band_map img") (simp_all add: image_ok_def)
  have g: "gdal_band img 0 = Inr hb" by (simp add: gdal_band_def py_index_def bm)
  have p: "snd (gdal_block_size img hb) \<noteq> 0" "fst (gdal_block_size img hb) \<noteq> 0"
    using ok by (simp_all add: image_ok_def block_x_def block_y_def bm)
  show ?thesis using ok g p
    by (simp add: block_info_def image_ok_def block_x_def block_y_def bm Let_def)
qed

lemma aligned_eq_spec:
  "image_ok img \<Longrightarrow> contains_rect (bounds img) roi \<Longrightarrow>
   get_block_aligned_read_roi img roi =
     Inr (get_intersection (spec_aligned (block_x img) (block_y img) roi) (bounds img))"
proof -
  assume ok: "image_ok img" and c: "contains_rect (bounds img) roi"
  from block_info_ok [OF ok] obtain nb where "block_info img 0 = Inr ((block_x img, block_y img), nb)" ..
  then show ?thesis using ok c
    by (simp add: get_block_aligned_read_roi_def image_ok_def spec_aligned_def Let_def)
qed

lemma spec_aligned_coords:
  "min_x (spec_aligned bx by r) = floor_div (min_x r) bx * bx"
  "min_y (spec_aligned bx by r) = floor_div (min_y r) by * by"
  "max_x (spec_aligned bx by r) = (floor_div (max_x r - 1) bx + 1) * bx"
  "max_y (spec_aligned bx by r) = (floor_div (max_y r - 1) by + 1) * by"
  by (simp_all add: spec_aligned_def Rectangle_def algebra_simps)

lemma spec_aligned_block_aligned: "block_aligned bx by (spec_aligned bx by r)"
  by (simp add: block_aligned_def spec_aligned_coords)

lemma spec_aligned_contains:
  "0 < bx \<Longrightarrow> 0 < by \<Longrightarrow> contains_rect (spec_aligned bx by r) r"
  by (simp add: contains_rect_def spec_aligned_coords floor_mult_le le_ceil_mult)

lemma spec_aligned_least:
  "0 < bx \<Longrightarrow> 0 < by \<Longrightarrow> block_aligned bx by b \<Longrightarrow> contains_rect b r \<Longrightarrow>
   contains_rect b (spec_aligned bx by r)"
  by (simp add: contains_rect_def block_aligned_def spec_aligned_coords dvd_le_floor dvd_ge_ceil)

lemma bounds_coords:
  "min_x (bounds img) = 0" "min_y (bounds img) = 0"
  "max_x (bounds img) = img_width img" "max_y (bounds img) = img_height img"
  by (simp_all add: bounds_def Rectangle_def)

lemma intersection_coords:
  "min_x (get_intersection r s) = max (min_x r) (min_x s)"
  "min_y (get_intersection r s) = max (min_y r) (min_y s)"
  "max_x (get_intersection r s) = min (max_x r) (max_x s)"
  "max_y (get_intersection r s) = min (max_y r) (max_y s)"
  by (simp_all add: get_intersection_def)

lemma realign_min: "0 < (b::int) \<Longrightarrow> b dvd m \<Longrightarrow> max (floor_div (max m 0) b * b) 0 = max m 0"
proof -
  assume b: "0 < b" and d: "b dvd m"
  have "b dvd max m 0" using d by (simp add: max_def)
  then show ?thesis using floor_dvd [OF b] by simp
qed

lemma realign_max:
  "0 < (b::int) \<Longrightarrow> b dvd m \<Longrightarrow> min ((floor_div (min m w - 1) b + 1) * b) w = min m w"
proof (cases "m \<le> w")
  case True
  assume "0 < b" "b dvd m"
  then show ?thesis using True ceil_dvd [of b m] by (simp add: min_def)
next
  case False
  assume "0 < b" "b dvd m"
  then show ?thesis using False le_ceil_mult [of b w] by (simp add: min_def)
qed

lemma clipped_in_bounds: "contains_rect (bounds img) (get_intersection a (bounds img))"
  by (simp add: contains_rect_def intersection_coords bounds_coords)

lemma clipped_contains:
  "contains_rect a r \<Longrightarrow> contains_rect b r \<Longrightarrow> contains_rect (get_intersection a b) r"
  by (simp add: contains_rect_def intersection_coords)

lemma realign_clipped:
  assumes "0 < bx" "0 < by"
  shows "get_intersection (spec_aligned bx by (get_intersection (spec_aligned bx by roi) (bounds img))) (bounds img)
         = get_intersection (spec_aligned bx by roi) (bounds img)"
proof -
  let ?a = "spec_aligned bx by roi"
  let ?r = "get_intersection ?a (bounds img)"
  let ?r' = "get_intersection (spec_aligned bx by ?r) (bounds img)"
  have d: "bx dvd min_x ?a" "bx dvd max_x ?a" "by dvd min_y ?a" "by dvd max_y ?a"
    using spec_aligned_block_aligned [of bx "by" roi] by (simp_all add: block_aligned_def)
  have "min_x ?r' = min_x ?r"
    using realign_min [OF assms(1) d(1)]
    by (simp add: intersection_coords bounds_coords spec_aligned_coords)
  moreover have "min_y ?r' = min_y ?r"
    using realign_min [OF assms(2) d(3)]
    by (simp add: intersection_coords bounds_coords spec_aligned_coords)
  moreover have "max_x ?r' = max_x ?r"
    using realign_max [OF assms(1) d(2)]
    by (simp add: intersection_coords bounds_coords spec_aligned_coords)
  moreover have "max_y ?r' = max_y ?r"
    using realign_max [OF assms(2) d(4)]
    by (simp add: intersection_coords bounds_coords spec_aligned_coords)
  ultimately show ?thesis by (simp add: rect.equality)
qed

lemma example_image_ok: "image_ok example_image"
  by (simp add: image_ok_def example_image_def block_x_def block_y_def)

section \<open>The block aligner\<close>

text \<open>
  Claim C1. On an open image, a desired ROI that is not contained in the image bounds makes
  \<open>get_block_aligned_read_roi\<close> fail with \<open>RegionOutOfBoundsError\<close>. A desired ROI that
  is contained in the bounds gives the rectangle of the specification's formula (per axis:
  start at \<open>floor(min / block) * block\<close>, extent \<open>(stop_block - start_block + 1) * block\<close>)
  intersected with the image bounds. The rectangle of the formula is made of whole blocks,
  contains the ROI, and is contained in every rectangle made of whole blocks that contains the
  ROI: it is the smallest block-aligned superset. The clipped result still contains the ROI
  and lies inside the image.
\<close>

theorem aligned_roi_smallest_clipped:
  assumes "is_open img"
  shows "(\<not> contains_rect (bounds img) roi \<longrightarrow>
            get_block_aligned_read_roi img roi = Inl RegionOutOfBoundsError) \<and>
         (image_ok img \<and> contains_rect (bounds img) roi \<longrightarrow>
            get_block_aligned_read_roi img roi =
              Inr (get_intersection (spec_aligned (block_x img) (block_y img) roi) (bounds img)) \<and>
            block_aligned (block_x img) (block_y img) (spec_aligned (block_x img) (block_y img) roi) \<and>
            contains_rect (spec_aligned (block_x img) (block_y img) roi) roi \<and>
            (\<forall>b. block_aligned (block_x img) (block_y img) b \<and> contains_rect b roi \<longrightarrow>
                 contains_rect b (spec_aligned (block_x img) (block_y img) roi)) \<and>
            contains_rect (get_intersection (spec_aligned (block_x img) (block_y img) roi) (bounds img)) roi \<and>
            contains_rect (bounds img) (get_intersection (spec_aligned (block_x img) (block_y img) roi) (bounds img)))"
proof (intro conjI impI)
  assume "\<not> contains_rect (bounds img) roi"
  then show "get_block_aligned_read_roi img roi = Inl RegionOutOfBoundsError"
    using assms by (simp add: get_block_aligned_read_roi_def)
next
  assume h: "image_ok img \<and> contains_rect (bounds img) roi"
  then have pos: "0 < block_x img" "0 < block_y img" by (simp_all add: image_ok_def)
  show "get_block_aligned_read_roi img roi =
      Inr (get_intersection (spec_aligned (block_x img) (block_y img) roi) (bounds img))"
    using h by (simp add: aligned_eq_spec)
  show "block_aligned (block_x img) (block_y img) (spec_aligned (block_x img) (block_y img) roi)"
    by (rule spec_aligned_block_aligned)
  show c: "contains_rect (spec_aligned (block_x img) (block_y img) roi) roi"
    using pos by (rule spec_aligned_contains)
  show "\<forall>b. block_aligned (block_x img) (block_y img) b \<and> contains_rect b roi \<longrightarrow>
                 contains_rect b (spec_aligned (block_x img) (block_y img) roi)"
    using pos by (simp add: spec_aligned_least)
  show "contains_rect (get_intersection (spec_aligned (block_x img) (block_y img) roi) (bounds img)) roi"
    using c h by (simp add: clipped_contains)
  show "contains_rect (bounds img) (get_intersection (spec_aligned (block_x img) (block_y img) roi) (bounds img))"
    by (rule clipped_in_bounds)
qed

theorem aligned_roi_smallest_clipped_witness:
  "is_open example_image \<and> image_ok example_image \<and>
   contains_rect (bounds example_image) \<lparr>min_x = 40, min_y = 40, max_x = 100, max_y = 90\<rparr> \<and>
   get_block_aligned_read_roi example_image \<lparr>min_x = 40, min_y = 40, max_x = 100, max_y = 90\<rparr>
     = Inr \<lparr>min_x = 32, min_y = 32, max_x = 100, max_y = 96\<rparr> \<and>
   \<not> contains_rect (bounds example_image) \<lparr>min_x = 40, min_y = 40, max_x = 101, max_y = 90\<rparr> \<and>
   get_block_aligned_read_roi example_image \<lparr>min_x = 40, min_y = 40, max_x = 101, max_y = 90\<rparr>
     = Inl RegionOutOfBoundsError"
proof -
  have o: "is_open example_image" by (simp add: example_image_def)
  have c: "contains_rect (bounds example_image) \<lparr>min_x = 40, min_y = 40, max_x = 100, max_y = 90\<rparr>"
    by (simp add: contains_rect_def bounds_def Rectangle_def example_image_def)
  have n: "\<not> contains_rect (bounds example_image) \<lparr>min_x = 40, min_y = 40, max_x = 101, max_y = 90\<rparr>"
    by (simp add: contains_rect_def bounds_def Rectangle_def example_image_def)
  have v: "get_intersection (spec_aligned (block_x example_image) (block_y example_image)
              \<lparr>min_x = 40, min_y = 40, max_x = 100, max_y = 90\<rparr>) (bounds example_image)
           = \<lparr>min_x = 32, min_y = 32, max_x = 100, max_y = 96\<rparr>"
    by (simp add: get_intersection_def spec_aligned_def Rectangle_def bounds_def floor_div_def
        block_x_def block_y_def example_image_def)
  show ?thesis
    using o c n example_image_ok
      aligned_roi_smallest_clipped [OF o, of "\<lparr>min_x = 40, min_y = 40, max_x = 100, max_y = 90\<rparr>"]
      aligned_roi_smallest_clipped [OF o, of "\<lparr>min_x = 40, min_y = 40, max_x = 101, max_y = 90\<rparr>"]
    by (simp add: v)
qed

text \<open>
  Claim C9. Block alignment is idempotent: for an ROI contained in the image bounds,
  \<open>get_block_aligned_read_roi\<close> returns a region on which \<open>get_block_aligned_read_roi\<close>
  returns that same region.
\<close>

theorem block_alignment_idempotent:
  assumes "image_ok img" and "contains_rect (bounds img) roi"
  shows "\<exists>r. get_block_aligned_read_roi img roi = Inr r \<and> get_block_aligned_read_roi img r = Inr r"
proof -
  let ?r = "get_intersection (spec_aligned (block_x img) (block_y img) roi) (bounds img)"
  have pos: "0 < block_x img" "0 < block_y img" using assms(1) by (simp_all add: image_ok_def)
  have 1: "get_block_aligned_read_roi img roi = Inr ?r" using assms by (rule aligned_eq_spec)
  have "get_block_aligned_read_roi img ?r =
     Inr (get_intersection (spec_aligned (block_x img) (block_y img) ?r) (bounds img))"
    using assms(1) clipped_in_bounds by (rule aligned_eq_spec)
  then have 2: "get_block_aligned_read_roi img ?r = Inr ?r"
    using realign_clipped [OF pos] by simp
  from 1 2 show ?thesis by blast
qed

theorem block_alignment_idempotent_witness:
  "image_ok example_image \<and>
   contains_rect (bounds example_image) \<lparr>min_x = 40, min_y = 40, max_x = 100, max_y = 90\<rparr> \<and>
   get_block_aligned_read_roi example_image \<lparr>min_x = 40, min_y = 40, max_x = 100, max_y = 90\<rparr>
     = Inr \<lparr>min_x = 32, min_y = 32, max_x = 100, max_y = 96\<rparr> \<and>
   get_block_aligned_read_roi example_image \<lparr>min_x = 32, min_y = 32, max_x = 100, max_y = 96\<rparr>
     = Inr \<lparr>min_x = 32, min_y = 32, max_x = 100, max_y = 96\<rparr>"
proof -
  have c: "contains_rect (bounds example_image) \<lparr>min_x = 40, min_y = 40, max_x = 100, max_y = 90\<rparr>"
    by (simp add: contains_rect_def bounds_def Rectangle_def example_image_def)
  have v: "get_block_aligned_read_roi example_image \<lparr>min_x = 40, min_y = 40, max_x = 100, max_y = 90\<rparr>
     = Inr \<lparr>min_x = 32, min_y = 32, max_x = 100, max_y = 96\<rparr>"
    by (simp add: get_block_aligned_read_roi_def block_info_def gdal_band_def py_index_def
        contains_rect_def get_intersection_def Rectangle_def bounds_def floor_div_def ceil_div_def
        example_image_def Let_def)
  show ?thesis
    using block_alignment_idempotent [OF example_image_ok c] c v example_image_ok by simp
qed

section \<open>The tile writer\<close>

lemma get_num_tiles_ok:
  "w_tile_width wr \<noteq> 0 \<Longrightarrow> w_tile_height wr \<noteq> 0 \<Longrightarrow>
   get_num_tiles wr = Inr (num_tiles_x wr, num_tiles_y wr)"
  by (simp add: get_num_tiles_def num_tiles_x_def num_tiles_y_def)




text \<open>
  Claim C3. On an open writer (with tile sizes other than zero, so that the tile grid
  exists): a block index at or beyond the grid fails with \<open>InvalidTileIndexError\<close>; otherwise
  an edge block fails with \<open>TileOverflowError\<close> exactly when its extent from its offset
  exceeds the image size, and an interior block fails with \<open>TileShapeMismatchError\<close> exactly
  when its shape differs from the tile size; a call that does not fail appends one write of
  the data at the pixel offset \<open>(block_x * tile_w, block_y * tile_h)\<close> and changes nothing
  else; and a call that passes the checks for a band of the dataset does not fail.
\<close>

theorem write_block_checks:
  assumes "handle_open wr" and "w_tile_width wr \<noteq> 0" and "w_tile_height wr \<noteq> 0"
  shows
    "(bx \<ge> num_tiles_x wr \<or> by \<ge> num_tiles_y wr \<longrightarrow>
        write_block wr d bx by band = Inl InvalidTileIndexError) \<and>
     (bx < num_tiles_x wr \<and> by < num_tiles_y wr \<and>
      (bx = num_tiles_x wr - 1 \<or> by = num_tiles_y wr - 1) \<longrightarrow>
        (write_block wr d bx by band = Inl TileOverflowError \<longleftrightarrow>
           bx * w_tile_width wr + int (shape0 d) > w_width wr \<or>
           by * w_tile_height wr + int (shape1 d) > w_height wr)) \<and>
     (bx < num_tiles_x wr \<and> by < num_tiles_y wr \<and>
      \<not> (bx = num_tiles_x wr - 1 \<or> by = num_tiles_y wr - 1) \<longrightarrow>
        (write_block wr d bx by band = Inl TileShapeMismatchError \<longleftrightarrow>
           (int (shape0 d), int (shape1 d)) \<noteq> (w_tile_width wr, w_tile_height wr))) \<and>
     (\<forall>wr'. write_block wr d bx by band = Inr wr' \<longrightarrow>
        (\<exists>g. wr' = wr\<lparr>written := written wr @ [g]\<rparr> \<and> wdata g = d \<and> gdal_band_no g = band + 1 \<and>
             pixel_offset g = (bx * w_tile_width wr, by * w_tile_height wr))) \<and>
     (bx < num_tiles_x wr \<and> by < num_tiles_y wr \<and>
      (if bx = num_tiles_x wr - 1 \<or> by = num_tiles_y wr - 1
       then bx * w_tile_width wr + int (shape0 d) \<le> w_width wr \<and>
            by * w_tile_height wr + int (shape1 d) \<le> w_height wr
       else int (shape0 d) = w_tile_width wr \<and> int (shape1 d) = w_tile_height wr) \<and>
      0 \<le> band \<and> band < raster_count wr \<longrightarrow>
        (\<exists>wr'. write_block wr d bx by band = Inr wr'))"
  using assms
  by (auto simp: write_block_def get_num_tiles_ok Let_def pixel_offset_def)

theorem write_block_checks_witness:
  "handle_open example_writer \<and> w_tile_width example_writer \<noteq> 0 \<and> w_tile_height example_writer \<noteq> 0 \<and>
   num_tiles_x example_writer = 3 \<and> num_tiles_y example_writer = 3 \<and>
   write_block example_writer (block_of 4 4) 3 0 0 = Inl InvalidTileIndexError \<and>
   write_block example_writer (block_of 4 4) 2 2 0 = Inl TileOverflowError \<and>
   write_block example_writer (block_of 3 3) 0 0 0 = Inl TileShapeMismatchError \<and>
   (\<exists>wr' g. write_block example_writer (block_of 2 2) 2 2 0 = Inr wr' \<and> written wr' = [g] \<and>
      pixel_offset g = (8, 8))"
proof -
  have h: "handle_open example_writer" "w_tile_width example_writer \<noteq> 0"
    "w_tile_height example_writer \<noteq> 0"
    by (simp_all add: example_writer_def)
  have n: "num_tiles_x example_writer = 3" "num_tiles_y example_writer = 3"
    by (simp_all add: num_tiles_x_def num_tiles_y_def example_writer_def ceil_div_def)
  have f: "w_width example_writer = 10" "w_height example_writer = 10"
    "w_tile_width example_writer = 4" "w_tile_height example_writer = 4"
    "raster_count example_writer = 1" "written example_writer = []"
    by (simp_all add: example_writer_def)
  have s: "shape0 (block_of a b) = a" "shape1 (block_of a b) = b" for a b
    by (simp_all add: block_of_def)
  have 1: "write_block example_writer (block_of 4 4) 3 0 0 = Inl InvalidTileIndexError"
    using write_block_checks [OF h, of 3 0 "block_of 4 4" 0] by (simp add: n)
  have 2: "write_block example_writer (block_of 4 4) 2 2 0 = Inl TileOverflowError"
    using write_block_checks [OF h, of 2 2 "block_of 4 4" 0] by (simp add: n f s)
  have 3: "write_block example_writer (block_of 3 3) 0 0 0 = Inl TileShapeMismatchError"
    using write_block_checks [OF h, of 0 0 "block_of 3 3" 0] by (simp add: n f s)
  obtain wr' where w: "write_block example_writer (block_of 2 2) 2 2 0 = Inr wr'"
    using write_block_checks [OF h, of 2 2 "block_of 2 2" 0] by (auto simp: n f s)
  obtain g where "wr' = example_writer\<lparr>written := written example_writer @ [g]\<rparr>"
    "pixel_offset g = (2 * w_tile_width example_writer, 2 * w_tile_height example_writer)"
    using w write_block_checks [OF h, of 2 2 "block_of 2 2" 0] by auto
  then have 4: "\<exists>wr' g. write_block example_writer (block_of 2 2) 2 2 0 = Inr wr' \<and> written wr' = [g] \<and>
      pixel_offset g = (8, 8)"
    using w by (simp add: f)
  show ?thesis using h n 1 2 3 4 by simp
qed

text \<open>
  Claim C4, as stated: the tiled layout is chosen exactly when both the width and the height
  exceed 100. A writer of width 200 and height 50 is tiled.
\<close>

theorem tiled_needs_both_counterexample:
  "\<not> (''TILED=YES'' \<in> set (creation_options 200 50 256 256) \<longleftrightarrow> (200::int) > 100 \<and> (50::int) > 100)"
  by (simp add: creation_options_def MIN_SIZE_FOR_TILES_def)

text \<open>
  Claim C4, amended. The creation options that the constructor hands to the backend contain
  \<open>TILED=YES\<close> exactly when the width or the height exceeds 100; a constructed writer carries
  these options.
\<close>

theorem tiled_iff_either_exceeds:
  "(''TILED=YES'' \<in> set (creation_options w h tw th) \<longleftrightarrow> w > 100 \<or> h > 100) \<and>
   (\<exists>wr. TiffWriter w h nb tw th True = Inr wr \<and> w_options wr = creation_options w h tw th)"
  by (simp add: creation_options_def MIN_SIZE_FOR_TILES_def TiffWriter_def)

theorem tiled_iff_either_exceeds_witness:
  "''TILED=YES'' \<in> set (creation_options 200 50 256 256) \<and>
   ''TILED=YES'' \<notin> set (creation_options 100 100 256 256) \<and>
   (\<exists>wr. TiffWriter 200 50 1 256 256 True = Inr wr \<and> ''TILED=YES'' \<in> set (w_options wr))"
proof -
  have "\<exists>wr. TiffWriter 200 50 1 256 256 True = Inr wr \<and> w_options wr = creation_options 200 50 256 256"
    using tiled_iff_either_exceeds [of 200 50 256 256 1] by simp
  then show ?thesis
    using tiled_iff_either_exceeds [of 200 50 256 256 1] tiled_iff_either_exceeds [of 100 100 256 256 1]
    by auto
qed




section \<open>Reading\<close>

lemma gdal_band_valid:
  "valid_band img b \<Longrightarrow> \<exists>hb \<in> set (band_map img). gdal_band img b = Inr hb"
  by (auto simp: valid_band_def gdal_band_def py_index_def)

lemma fill_plane_dims:
  "dim0 (fill_plane buf i blk) = dim0 buf" "dim1 (fill_plane buf i blk) = dim1 buf"
  "dim2 (fill_plane buf i blk) = dim2 buf"
  by (simp_all add: fill_plane_def)

lemma read_bands_ok:
  assumes "backend_reads img roi"
    and "(int (dim1 buf), int (dim2 buf)) = (width roi, height roi)"
  shows "\<forall>b \<in> set bands. valid_band img b \<Longrightarrow> i + length bands \<le> dim0 buf \<Longrightarrow>
    \<exists>filled. read_bands img roi i bands buf = Inr filled \<and> dim0 filled = dim0 buf \<and>
       dim1 filled = dim1 buf \<and> dim2 filled = dim2 buf"
  using assms(2)
proof (induction bands arbitrary: i buf)
  case Nil
  then show ?case by simp
next
  case (Cons b bands)
  from Cons.prems(1) obtain hb where hb: "hb \<in> set (band_map img)" "gdal_band img b = Inr hb"
    using gdal_band_valid [of img b] by auto
  from assms(1) hb(1) obtain blk
    where blk: "gdal_read img hb (min_y roi) (min_x roi) (height roi) (width roi) = Some blk"
    by (auto simp: backend_reads_def)
  have "\<exists>filled. read_bands img roi (i + 1) bands (fill_plane buf i blk) = Inr filled \<and>
       dim0 filled = dim0 (fill_plane buf i blk) \<and> dim1 filled = dim1 (fill_plane buf i blk) \<and>
       dim2 filled = dim2 (fill_plane buf i blk)"
    using Cons.prems by (intro Cons.IH) (simp_all add: fill_plane_dims)
  then show ?case using Cons.prems hb blk by (simp add: fill_plane_dims)
qed

lemma read_bands_shape_error:
  "gdal_band img b = Inr hb \<Longrightarrow> i < dim0 buf \<Longrightarrow>
   (int (dim1 buf), int (dim2 buf)) \<noteq> (width roi, height roi) \<Longrightarrow>
   read_bands img roi i (b # bands) buf = Inl BufferShapeError"
  by simp

lemma read'_fresh_ok:
  assumes "is_open img" "band_map img \<noteq> []" "rect_ok roi" "backend_reads img roi"
    and "\<forall>b \<in> set bands. valid_band img b" "length bands \<le> length (band_map img)"
  shows "\<exists>buf. read' img roi bands None = Inr buf \<and>
     shape buf = (nat (width roi), nat (height roi), length (band_map img))"
proof -
  have w: "0 \<le> width roi" "0 \<le> height roi"
    using assms(3) by (simp_all add: rect_ok_def width_def height_def)
  have "valid_band img 0" using assms(2) by (simp add: valid_band_def)
  then obtain hb0 where g0: "gdal_band img 0 = Inr hb0" using gdal_band_valid by blast
  let ?z = "zeros (length (band_map img)) (nat (width roi)) (nat (height roi))"
  have "\<exists>filled. read_bands img roi 0 bands ?z = Inr filled \<and> dim0 filled = dim0 ?z \<and>
       dim1 filled = dim1 ?z \<and> dim2 filled = dim2 ?z"
    using assms(4) _ assms(5) by (rule read_bands_ok) (use w assms(6) in \<open>simp_all add: zeros_def\<close>)
  then obtain filled where f: "read_bands img roi 0 bands ?z = Inr filled"
    "dim0 filled = length (band_map img)" "dim1 filled = nat (width roi)"
    "dim2 filled = nat (height roi)"
    by (auto simp: zeros_def)
  show ?thesis using assms(1) g0 w f
    by (simp add: read'_def shape_def transpose_120_def)
qed

lemma valid_all_bands: "\<forall>b \<in> set (map int [0..<length (band_map img)]). valid_band img b"
  by (simp add: valid_band_def)

lemma read_all_ok:
  assumes "is_open img" "band_map img \<noteq> []" "contains_rect (bounds img) roi" "rect_ok roi"
    "backend_reads img roi"
  shows "\<exists>buf. read img roi None None = Inr buf \<and>
     shape buf = (nat (width roi), nat (height roi), length (band_map img))"
proof -
  have "\<exists>buf. read' img roi (map int [0..<length (band_map img)]) None = Inr buf \<and>
     shape buf = (nat (width roi), nat (height roi), length (band_map img))"
    using assms(1,2,4,5) valid_all_bands by (rule read'_fresh_ok) simp
  then show ?thesis using assms(1,3) by (simp add: read_def)
qed

text \<open>
  Claim C7, as stated: the buffer read has the shape \<open>(height, width, len(bands))\<close>. Reading
  band 0 alone, on a region of width 4 and height 2 of the three-band image, gives a buffer
  of shape \<open>(4, 2, 3)\<close>.
\<close>

theorem read_shape_counterexample:
  "result_shape (read example_image \<lparr>min_x = 0, min_y = 0, max_x = 4, max_y = 2\<rparr> (Some [0]) None)
     = Inr (4, 2, 3) \<and>
   height \<lparr>min_x = 0, min_y = 0, max_x = 4, max_y = 2\<rparr> = 2 \<and>
   width \<lparr>min_x = 0, min_y = 0, max_x = 4, max_y = 2\<rparr> = 4 \<and>
   length [0::int] = 1"
  by (simp add: result_shape_def shape_def read_def read'_def gdal_band_def py_index_def
      contains_rect_def bounds_def Rectangle_def width_def height_def zeros_def fill_plane_def
      transpose_120_def example_image_def)

text \<open>
  Claim C7, amended. On an open source, \<open>read\<close> fails with \<open>OutOfBoundsError\<close> when the region is
  not contained in the full extent. For a region contained in it (with \<open>min \<le> max\<close>), no
  caller buffer, and a list of valid bands no longer than the source's band count, \<open>read\<close>
  returns (when the backend delivers the region) a buffer whose first axis is the region's
  width and whose second axis is its height; the third axis has \<open>len(bands)\<close> entries when the
  list names as many bands as the source has, and for the default of all bands. With a
  caller buffer, laid out \<open>(band, x, y)\<close>, the check of its shape is made per band: for a
  non-empty band list whose first band is valid and a buffer with at least one plane whose
  spatial shape is not \<open>(width, height)\<close>, \<open>read\<close> fails with \<open>BufferShapeError\<close>.
\<close>

theorem read_shape_and_errors:
  assumes "is_open img"
  shows
    "(\<not> contains_rect (bounds img) region \<longrightarrow> read img region bands out = Inl OutOfBoundsError) \<and>
     (contains_rect (bounds img) region \<and> rect_ok region \<and> band_map img \<noteq> [] \<and>
      backend_reads img region \<and> (\<forall>b \<in> set bs. valid_band img b) \<and>
      length bs \<le> length (band_map img) \<longrightarrow>
        (\<exists>buf. read img region (Some bs) None = Inr buf \<and>
           int (dim0 buf) = width region \<and> int (dim1 buf) = height region \<and>
           (length bs = length (band_map img) \<longrightarrow> dim2 buf = length bs))) \<and>
     (contains_rect (bounds img) region \<and> rect_ok region \<and> band_map img \<noteq> [] \<and>
      backend_reads img region \<longrightarrow>
        (\<exists>buf. read img region None None = Inr buf \<and>
           int (dim0 buf) = width region \<and> int (dim1 buf) = height region \<and>
           dim2 buf = length (band_map img))) \<and>
     (contains_rect (bounds img) region \<and> bs \<noteq> [] \<and> valid_band img (hd bs) \<and> 0 < dim0 ob \<and>
      (int (dim1 ob), int (dim2 ob)) \<noteq> (width region, height region) \<longrightarrow>
        read img region (Some bs) (Some ob) = Inl BufferShapeError)"
proof (intro conjI impI)
  assume "\<not> contains_rect (bounds img) region"
  then show "read img region bands out = Inl OutOfBoundsError"
    using assms by (simp add: read_def)
next
  assume a: "contains_rect (bounds img) region \<and> rect_ok region \<and> band_map img \<noteq> [] \<and>
      backend_reads img region \<and> (\<forall>b \<in> set bs. valid_band img b) \<and>
      length bs \<le> length (band_map img)"
  then have "\<exists>buf. read' img region bs None = Inr buf \<and>
     shape buf = (nat (width region), nat (height region), length (band_map img))"
    using assms by (intro read'_fresh_ok) simp_all
  moreover have "0 \<le> width region" "0 \<le> height region"
    using a by (simp_all add: rect_ok_def width_def height_def)
  ultimately show "\<exists>buf. read img region (Some bs) None = Inr buf \<and>
           int (dim0 buf) = width region \<and> int (dim1 buf) = height region \<and>
           (length bs = length (band_map img) \<longrightarrow> dim2 buf = length bs)"
    using assms a by (auto simp: read_def shape_def)
next
  assume a: "contains_rect (bounds img) region \<and> rect_ok region \<and> band_map img \<noteq> [] \<and>
      backend_reads img region"
  then have "\<exists>buf. read img region None None = Inr buf \<and>
     shape buf = (nat (width region), nat (height region), length (band_map img))"
    using assms by (intro read_all_ok) simp_all
  moreover have "0 \<le> width region" "0 \<le> height region"
    using a by (simp_all add: rect_ok_def width_def height_def)
  ultimately show "\<exists>buf. read img region None None = Inr buf \<and>
           int (dim0 buf) = width region \<and> int (dim1 buf) = height region \<and>
           dim2 buf = length (band_map img)"
    by (auto simp: shape_def)
next
  assume a: "contains_rect (bounds img) region \<and> bs \<noteq> [] \<and> valid_band img (hd bs) \<and> 0 < dim0 ob \<and>
      (int (dim1 ob), int (dim2 ob)) \<noteq> (width region, height region)"
  then obtain b rest where bs: "bs = b # rest" by (cases bs) auto
  then obtain hb where hb: "gdal_band img b = Inr hb" using a gdal_band_valid [of img b] by auto
  have "read_bands img region 0 (b # rest) ob = Inl BufferShapeError"
    using hb a by (intro read_bands_shape_error) simp_all
  then show "read img region (Some bs) (Some ob) = Inl BufferShapeError"
    using assms a bs by (simp add: read_def read'_def)
qed

theorem read_shape_and_errors_witness:
  "is_open example_image \<and>
   read example_image \<lparr>min_x = 0, min_y = 0, max_x = 101, max_y = 2\<rparr> None None = Inl OutOfBoundsError \<and>
   (\<exists>buf. read example_image \<lparr>min_x = 0, min_y = 0, max_x = 4, max_y = 2\<rparr> (Some [0, 1, 2]) None = Inr buf \<and>
      shape buf = (4, 2, 3)) \<and>
   (\<exists>buf. read example_image \<lparr>min_x = 0, min_y = 0, max_x = 4, max_y = 2\<rparr> None None = Inr buf \<and>
      shape buf = (4, 2, 3)) \<and>
   read example_image \<lparr>min_x = 0, min_y = 0, max_x = 4, max_y = 2\<rparr> (Some [0]) (Some (zeros 1 2 4))
     = Inl BufferShapeError"
proof -
  let ?r = "\<lparr>min_x = 0, min_y = 0, max_x = 4, max_y = 2\<rparr>"
  let ?o = "\<lparr>min_x = 0, min_y = 0, max_x = 101, max_y = 2\<rparr>"
  have o: "is_open example_image" by (simp add: example_image_def)
  have f: "band_map example_image = [(0, 1), (0, 2), (0, 3)]" by (simp add: example_image_def)
  have c: "contains_rect (bounds example_image) ?r" "\<not> contains_rect (bounds example_image) ?o"
    by (simp_all add: contains_rect_def bounds_def Rectangle_def example_image_def)
  have r: "rect_ok ?r" "width ?r = 4" "height ?r = 2"
    by (simp_all add: rect_ok_def width_def height_def)
  have b: "backend_reads example_image ?r" by (simp add: backend_reads_def example_image_def)
  have v: "\<forall>b \<in> set [0, 1, 2]. valid_band example_image b" "valid_band example_image 0"
    by (simp_all add: valid_band_def f)
  have 1: "read example_image ?o None None = Inl OutOfBoundsError"
    using read_shape_and_errors [OF o, of ?o None None] c by simp
  have 2: "\<exists>buf. read example_image ?r (Some [0, 1, 2]) None = Inr buf \<and> shape buf = (4, 2, 3)"
    using read_shape_and_errors [OF o, of ?r None None "[0, 1, 2]" "zeros 1 2 4"] c r b v
    by (auto simp: f shape_def numeral_3_eq_3)
  have 3: "\<exists>buf. read example_image ?r None None = Inr buf \<and> shape buf = (4, 2, 3)"
    using read_shape_and_errors [OF o, of ?r None None "[0]" "zeros 1 2 4"] c r b
    by (auto simp: f shape_def numeral_3_eq_3)
  have 4: "read example_image ?r (Some [0]) (Some (zeros 1 2 4)) = Inl BufferShapeError"
    using read_shape_and_errors [OF o, of ?r None None "[0]" "zeros 1 2 4"] c r v
    by (simp add: zeros_def)
  show ?thesis using o 1 2 3 4 by simp
qed

section \<open>The scheduler\<close>

lemma collect_applicable_eq:
  "collect_applicable r a i s app =
     (s\<lparr>cells := (cells s)(a := take i (cells s a) @
                                filter (\<lambda>x. \<not> contains_rect r x) (drop i (cells s a)))\<rparr>,
      app @ filter (contains_rect r) (drop i (cells s a)))"
proof (induction r a i s app rule: collect_applicable.induct)
  case (1 r a i s app)
  let ?xs = "cells s a"
  show ?case
  proof (cases "i < length ?xs")
    case False
    then show ?thesis by (subst collect_applicable.simps) simp
  next
    case True
    then have d: "drop i ?xs = ?xs ! i # drop (Suc i) ?xs" by (simp add: Cons_nth_drop_Suc)
    show ?thesis
    proof (cases "contains_rect r (?xs ! i)")
      case False
      have t: "take (Suc i) ?xs = take i ?xs @ [?xs ! i]"
        using True by (simp add: take_Suc_conv_app_nth)
      have "collect_applicable r a i s app = collect_applicable r a (i + 1) s app"
        using True False by (subst collect_applicable.simps) simp
      also have "\<dots> = (s\<lparr>cells := (cells s)(a := take (i + 1) ?xs @
                                filter (\<lambda>x. \<not> contains_rect r x) (drop (i + 1) ?xs))\<rparr>,
                        app @ filter (contains_rect r) (drop (i + 1) ?xs))"
        using True False by (rule "1.IH"(1))
      also have "\<dots> = (s\<lparr>cells := (cells s)(a := take i ?xs @
                                filter (\<lambda>x. \<not> contains_rect r x) (drop i ?xs))\<rparr>,
                        app @ filter (contains_rect r) (drop i ?xs))"
        using False t by (simp add: d)
      finally show ?thesis .
    next
      case c: True
      let ?s' = "s\<lparr>cells := (cells s)(a := pop_at i ?xs)\<rparr>"
      have p: "cells ?s' a = take i ?xs @ drop (Suc i) ?xs" by (simp add: pop_at_def)
      have l: "length (take i ?xs) = i" using True by simp
      have tk: "take i (take i ?xs @ drop (Suc i) ?xs) = take i ?xs" using l by simp
      have dr: "drop i (take i ?xs @ drop (Suc i) ?xs) = drop (Suc i) ?xs" using l by simp
      have "collect_applicable r a i s app = collect_applicable r a i ?s' (app @ [?xs ! i])"
        using True c by (subst collect_applicable.simps) simp
      also have "\<dots> = (?s'\<lparr>cells := (cells ?s')(a := take i (cells ?s' a) @
                                filter (\<lambda>x. \<not> contains_rect r x) (drop i (cells ?s' a)))\<rparr>,
                        (app @ [?xs ! i]) @ filter (contains_rect r) (drop i (cells ?s' a)))"
        using True c by (intro "1.IH"(2)) simp_all
      also have "\<dots> = (s\<lparr>cells := (cells s)(a := take i ?xs @
                                filter (\<lambda>x. \<not> contains_rect r x) (drop i ?xs))\<rparr>,
                        app @ filter (contains_rect r) (drop i ?xs))"
        using c by (simp only: p tk dr d) simp
      finally show ?thesis .
    qed
  qed
qed

lemma collect_applicable_0:
  "collect_applicable r a 0 s [] =
     (s\<lparr>cells := (cells s)(a := filter (\<lambda>x. \<not> contains_rect r x) (cells s a))\<rparr>,
      filter (contains_rect r) (cells s a))"
  by (simp add: collect_applicable_eq)

lemma submit_groups_done:
  "cells s a = [] \<Longrightarrow> submit_groups img a s jobs = Some (s, jobs, None)"
  by (subst submit_groups.simps) simp

lemma submit_groups_step:
  "cells s a \<noteq> [] \<Longrightarrow> get_block_aligned_read_roi img (hd (cells s a)) = Inr rr \<Longrightarrow>
   submit_groups img a s jobs =
     submit_groups img a
       (s\<lparr>cells := (cells s)(a := filter (\<lambda>x. \<not> contains_rect rr x) (cells s a))\<rparr>)
       (jobs @ [(rr, filter (contains_rect rr) (cells s a))])"
  by (subst submit_groups.simps) (simp add: collect_applicable_0)

text \<open>Whatever the image, a run of the grouping loop touches no list but the one it pops from.\<close>

lemma submit_groups_frame:
  assumes "submit_groups img a s jobs = Some res"
  shows "(\<forall>b. b \<noteq> a \<longrightarrow> cells (fst res) b = cells s b) \<and> next_free (fst res) = next_free s"
proof (rule submit_groups.raw_induct
    [where P = "\<lambda>img a s jobs res.
        (\<forall>b. b \<noteq> a \<longrightarrow> cells (fst res) b = cells s b) \<and> next_free (fst res) = next_free s",
      OF _ assms])
  fix sg :: "image \<Rightarrow> nat \<Rightarrow> store \<Rightarrow> (rect \<times> rect list) list
     \<Rightarrow> (store \<times> (rect \<times> rect list) list \<times> error option) option"
  fix img a s jobs res
  assume IH: "\<And>img a s jobs res. sg img a s jobs = Some res \<Longrightarrow>
      (\<forall>b. b \<noteq> a \<longrightarrow> cells (fst res) b = cells s b) \<and> next_free (fst res) = next_free s"
  assume eq: "(if cells s a = [] then Some (s, jobs, None)
      else case get_block_aligned_read_roi img (hd (cells s a)) of
          Inl e \<Rightarrow> Some (s, jobs, Some e)
        | Inr read_roi \<Rightarrow>
            (case collect_applicable read_roi a 0 s [] of
               (s', applicable_rois) \<Rightarrow> sg img a s' (jobs @ [(read_roi, applicable_rois)]))) = Some res"
  show "(\<forall>b. b \<noteq> a \<longrightarrow> cells (fst res) b = cells s b) \<and> next_free (fst res) = next_free s"
  proof (cases "cells s a = []")
    case True
    then show ?thesis using eq by auto
  next
    case ne: False
    show ?thesis
    proof (cases "get_block_aligned_read_roi img (hd (cells s a))")
      case (Inl e)
      then show ?thesis using eq ne by auto
    next
      case (Inr rr)
      let ?s' = "s\<lparr>cells := (cells s)(a := filter (\<lambda>x. \<not> contains_rect rr x) (cells s a))\<rparr>"
      have "sg img a ?s' (jobs @ [(rr, filter (contains_rect rr) (cells s a))]) = Some res"
        using eq ne Inr by (simp add: collect_applicable_0)
      then have "(\<forall>b. b \<noteq> a \<longrightarrow> cells (fst res) b = cells ?s' b) \<and> next_free (fst res) = next_free ?s'"
        by (rule IH)
      then show ?thesis by simp
    qed
  qed
qed

text \<open>
  On an image with positive block sizes and ROIs inside the bounds, every round pops at
  least the first ROI: the loop ends, raises nothing, and its groups split the list.
\<close>

lemma submit_groups_total:
  assumes ok: "image_ok img"
  shows "\<forall>roi \<in> set (cells s a). contains_rect (bounds img) roi \<Longrightarrow>
    \<exists>s' groups. submit_groups img a s jobs = Some (s', jobs @ groups, None) \<and>
       cells s' a = [] \<and> mset (concat (map snd groups)) = mset (cells s a) \<and>
       (\<forall>job \<in> set groups. group_ok img job)"
proof (induction "length (cells s a)" arbitrary: s jobs rule: less_induct)
  case less
  show ?case
  proof (cases "cells s a")
    case Nil
    then show ?thesis by (simp add: submit_groups_done)
  next
    case (Cons x xs)
    let ?rr = "get_intersection (spec_aligned (block_x img) (block_y img) x) (bounds img)"
    let ?c = "contains_rect ?rr"
    let ?s' = "s\<lparr>cells := (cells s)(a := filter (\<lambda>x. \<not> ?c x) (cells s a))\<rparr>"
    let ?g = "(?rr, filter ?c (cells s a))"
    have pos: "0 < block_x img" "0 < block_y img" using ok by (simp_all add: image_ok_def)
    have xb: "contains_rect (bounds img) x" using less.prems Cons by simp
    have al: "get_block_aligned_read_roi img x = Inr ?rr" using ok xb by (rule aligned_eq_spec)
    have cx: "?c x" using spec_aligned_contains [OF pos] xb by (rule clipped_contains)
    have step: "submit_groups img a s jobs = submit_groups img a ?s' (jobs @ [?g])"
      using al Cons by (intro submit_groups_step) simp_all
    have "length (filter (\<lambda>x. \<not> ?c x) (cells s a)) < length (cells s a)"
      using cx Cons by (simp add: le_imp_less_Suc)
    then have len: "length (cells ?s' a) < length (cells s a)" by simp
    have inb: "\<forall>roi \<in> set (cells ?s' a). contains_rect (bounds img) roi"
      using less.prems by simp
    from less.hyps [OF len inb, of "jobs @ [?g]"]
    obtain s'' groups where r: "submit_groups img a ?s' (jobs @ [?g]) = Some (s'', (jobs @ [?g]) @ groups, None)"
      "cells s'' a = []" "mset (concat (map snd groups)) = mset (cells ?s' a)"
      "\<forall>job \<in> set groups. group_ok img job"
      by blast
    have g: "group_ok img ?g"
      using cx al Cons clipped_in_bounds [of img] by (auto simp: group_ok_def)
    have m: "mset (concat (map snd (?g # groups))) = mset (cells s a)"
      using r(3) by simp
    show ?thesis
      using step r(1,2,4) g m
      by (intro exI [of _ s''] exI [of _ "?g # groups"]) simp
  qed
qed

lemma callback_args_fst: "fst (callback_args rr buf roi) = roi"
  by (simp add: callback_args_def Let_def)

lemma callback_rois: "map fst (map (callback_args rr buf) rois) = rois"
  by (induction rois) (simp_all add: callback_args_fst)

lemma callback_rois_comp: "map (fst \<circ> callback_args rr buf) rois = rois"
  using callback_rois [of rr buf rois] by simp

lemma consume_jobs_ok:
  "\<forall>job \<in> set jobs. \<exists>buf. read img (fst job) None None = Inr buf \<Longrightarrow>
   snd (consume_jobs img jobs calls) = None \<and>
   map fst (fst (consume_jobs img jobs calls)) = map fst calls @ concat (map snd jobs)"
proof (induction jobs arbitrary: calls)
  case Nil
  then show ?case by simp
next
  case (Cons job jobs)
  obtain rr rois where j: "job = (rr, rois)" by (cases job)
  from Cons.prems j obtain buf where b: "read img rr None None = Inr buf" by auto
  have "snd (consume_jobs img jobs (calls @ map (callback_args rr buf) rois)) = None \<and>
     map fst (fst (consume_jobs img jobs (calls @ map (callback_args rr buf) rois))) =
       map fst (calls @ map (callback_args rr buf) rois) @ concat (map snd jobs)"
    using Cons.prems by (intro Cons.IH) simp
  then show ?case using j b by (simp add: callback_rois_comp)
qed

lemma consume_jobs_fail:
  "k < length jobs \<Longrightarrow> read img (fst (jobs ! k)) None None = Inl e \<Longrightarrow>
   \<forall>j<k. \<exists>buf. read img (fst (jobs ! j)) None None = Inr buf \<Longrightarrow>
   snd (consume_jobs img jobs calls) = Some e \<and>
   map fst (fst (consume_jobs img jobs calls)) = map fst calls @ concat (map snd (take k jobs))"
proof (induction jobs arbitrary: calls k)
  case Nil
  then show ?case by simp
next
  case (Cons job jobs)
  obtain rr rois where j: "job = (rr, rois)" by (cases job)
  show ?case
  proof (cases k)
    case 0
    then show ?thesis using Cons.prems j by simp
  next
    case (Suc k')
    from Cons.prems(3) Suc j obtain buf where b: "read img rr None None = Inr buf" by fastforce
    have "snd (consume_jobs img jobs (calls @ map (callback_args rr buf) rois)) = Some e \<and>
       map fst (fst (consume_jobs img jobs (calls @ map (callback_args rr buf) rois))) =
         map fst (calls @ map (callback_args rr buf) rois) @ concat (map snd (take k' jobs))"
    proof (rule Cons.IH)
      show "k' < length jobs" using Cons.prems(1) Suc by simp
      show "read img (fst (jobs ! k')) None None = Inl e" using Cons.prems(2) Suc by simp
      show "\<forall>j<k'. \<exists>buf. read img (fst (jobs ! j)) None None = Inr buf"
        using Cons.prems(3) Suc by fastforce
    qed
    then show ?thesis using j b Suc by (simp add: callback_rois_comp)
  qed
qed

lemma consume_jobs_calls:
  "c \<in> set (fst (consume_jobs img jobs calls)) \<Longrightarrow>
   c \<in> set calls \<or>
   (\<exists>rr rois buf. (rr, rois) \<in> set jobs \<and> fst c \<in> set rois \<and>
      read img rr None None = Inr buf \<and> c = callback_args rr buf (fst c))"
proof (induction jobs arbitrary: calls)
  case Nil
  then show ?case by simp
next
  case (Cons job jobs)
  obtain rr rois where j: "job = (rr, rois)" by (cases job)
  show ?case
  proof (cases "read img rr None None")
    case (Inl e)
    then show ?thesis using Cons.prems j by simp
  next
    case (Inr buf)
    then have "c \<in> set (fst (consume_jobs img jobs (calls @ map (callback_args rr buf) rois)))"
      using Cons.prems j by simp
    then have "c \<in> set (calls @ map (callback_args rr buf) rois) \<or>
      (\<exists>rr rois buf. (rr, rois) \<in> set jobs \<and> fst c \<in> set rois \<and>
        read img rr None None = Inr buf \<and> c = callback_args rr buf (fst c))"
      by (rule Cons.IH)
    then show ?thesis
    proof (elim disjE)
      assume "c \<in> set (calls @ map (callback_args rr buf) rois)"
      then consider "c \<in> set calls" | x where "x \<in> set rois" "c = callback_args rr buf x"
        by auto
      then show ?thesis
      proof cases
        case 1
        then show ?thesis by simp
      next
        case 2
        then have "(rr, rois) \<in> set (job # jobs) \<and> fst c \<in> set rois \<and>
          read img rr None None = Inr buf \<and> c = callback_args rr buf (fst c)"
          using Inr j by (simp add: callback_args_fst)
        then show ?thesis by blast
      qed
    next
      assume "\<exists>rr rois buf. (rr, rois) \<in> set jobs \<and> fst c \<in> set rois \<and>
        read img rr None None = Inr buf \<and> c = callback_args rr buf (fst c)"
      then show ?thesis by auto
    qed
  qed
qed

text \<open>The slice taken for an ROI inside the region read has the ROI's extent, unclipped.\<close>

lemma slice_axis_inside:
  "0 \<le> lo \<Longrightarrow> lo \<le> hi \<Longrightarrow> hi \<le> int d \<Longrightarrow> slice_axis d lo hi = (nat lo, nat (hi - lo))"
  by (auto simp: slice_axis_def slice_bound_def)

lemma callback_slice:
  assumes c: "contains_rect rr roi" and r: "rect_ok roi"
    and s: "shape buf = (nat (width rr), nat (height rr), nb)"
  shows "snd (callback_args rr buf roi) =
      \<lparr>dim0 = nat (width roi), dim1 = nat (height roi), dim2 = nb,
       at3 = (\<lambda>i j k. at3 buf (nat (min_x roi - min_x rr) + i) (nat (min_y roi - min_y rr) + j) k)\<rparr>"
proof -
  have d: "dim0 buf = nat (width rr)" "dim1 buf = nat (height rr)" "dim2 buf = nb"
    using s by (simp_all add: shape_def)
  have x: "slice_axis (nat (width rr)) (min_x roi - min_x rr) (min_x roi - min_x rr + width roi)
      = (nat (min_x roi - min_x rr), nat (width roi))"
    using c r by (subst slice_axis_inside) (auto simp: contains_rect_def rect_ok_def width_def)
  have y: "slice_axis (nat (height rr)) (min_y roi - min_y rr) (min_y roi - min_y rr + height roi)
      = (nat (min_y roi - min_y rr), nat (height roi))"
    using c r by (subst slice_axis_inside) (auto simp: contains_rect_def rect_ok_def height_def)
  show ?thesis by (simp add: callback_args_def slice_xy_def Let_def d x y)
qed

lemma copy_list_eq:
  "\<exists>s1. copy_list s a = (s1, next_free s) \<and> cells s1 a = cells s a \<and>
     cells s1 (next_free s) = cells s a \<and> (\<forall>b. b \<noteq> next_free s \<longrightarrow> cells s1 b = cells s b)"
  by (simp add: copy_list_def)

lemma process_rois_returns:
  assumes ok: "image_ok img" and inb: "\<forall>roi \<in> set (cells s a). contains_rect (bounds img) roi"
  shows "\<exists>s' jobs. process_rois img s a =
        Some \<lparr>final_store = s', jobs_submitted = jobs,
              calls_made = fst (consume_jobs img jobs []),
              raised = snd (consume_jobs img jobs [])\<rparr> \<and>
      mset (concat (map snd jobs)) = mset (cells s a) \<and>
      (\<forall>job \<in> set jobs. group_ok img job)"
proof -
  obtain s1 where c: "copy_list s a = (s1, next_free s)" and c1: "cells s1 a = cells s a"
    and c2: "cells s1 (next_free s) = cells s a"
    using copy_list_eq [of s a] by blast
  have "\<forall>roi \<in> set (cells s1 (next_free s)). contains_rect (bounds img) roi"
    using inb by (simp add: c2)
  from submit_groups_total [OF ok this, of "[]"]
  obtain s' groups where g: "submit_groups img (next_free s) s1 [] = Some (s', groups, None)"
    "mset (concat (map snd groups)) = mset (cells s1 (next_free s))"
    "\<forall>job \<in> set groups. group_ok img job"
    by auto
  have v: "list_all (contains_rect (bounds img)) (cells s1 a)"
    using inb by (simp add: list_all_iff c1)
  have o: "is_open img" using ok by (simp add: image_ok_def)
  have "process_rois img s a =
        Some \<lparr>final_store = s', jobs_submitted = groups,
              calls_made = fst (consume_jobs img groups []),
              raised = snd (consume_jobs img groups [])\<rparr>"
    using o v g(1) by (simp add: process_rois_def c split_beta)
  then show ?thesis using g(2,3) c2 by auto
qed

lemma process_rois_frame:
  assumes al: "a < next_free s" and run: "process_rois img s a = Some r"
  shows "\<forall>b < next_free s. cells (final_store r) b = cells s b"
proof -
  obtain s1 where c: "copy_list s a = (s1, next_free s)"
    and c3: "\<forall>b. b \<noteq> next_free s \<longrightarrow> cells s1 b = cells s b"
    using copy_list_eq [of s a] by blast
  show ?thesis
  proof (cases "is_open img \<and> list_all (contains_rect (bounds img)) (cells s1 a)")
    case False
    then have "final_store r = s \<or> final_store r = s1"
      using run by (auto simp: process_rois_def c split: if_splits)
    then show ?thesis using c3 by auto
  next
    case True
    then have "\<exists>res. submit_groups img (next_free s) s1 [] = Some res \<and> final_store r = fst res"
      using run
      by (cases "submit_groups img (next_free s) s1 []")
         (auto simp: process_rois_def c split_beta split: option.splits)
    then obtain res where res: "submit_groups img (next_free s) s1 [] = Some res"
      "final_store r = fst res" by blast
    from submit_groups_frame [OF res(1)]
    have "\<forall>b. b \<noteq> next_free s \<longrightarrow> cells (fst res) b = cells s1 b" by simp
    then show ?thesis using res(2) c3 by auto
  qed
qed

lemma submit_groups_unfold:
  "cells s a \<noteq> [] \<Longrightarrow>
   submit_groups img a s jobs =
     (case get_block_aligned_read_roi img (hd (cells s a)) of
        Inl e \<Rightarrow> Some (s, jobs, Some e)
      | Inr rr \<Rightarrow>
          submit_groups img a
            (s\<lparr>cells := (cells s)(a := filter (\<lambda>x. \<not> contains_rect rr x) (cells s a))\<rparr>)
            (jobs @ [(rr, filter (contains_rect rr) (cells s a))]))"
  by (subst submit_groups.simps) (simp add: collect_applicable_0 split: sum.splits)

lemma failing_aligned:
  "get_block_aligned_read_roi failing_image roi1 = Inr region1"
  "get_block_aligned_read_roi failing_image roi2 = Inr region2"
  "get_block_aligned_read_roi failing_image roi3 = Inr region3"
  by (simp_all add: get_block_aligned_read_roi_def block_info_def gdal_band_def py_index_def
      contains_rect_def get_intersection_def Rectangle_def bounds_def floor_div_def ceil_div_def
      failing_image_def example_image_def Let_def roi1_def roi2_def roi3_def
      region1_def region2_def region3_def)

lemma failing_contains:
  "contains_rect region1 roi1" "\<not> contains_rect region1 roi2" "\<not> contains_rect region1 roi3"
  "contains_rect region2 roi2" "\<not> contains_rect region2 roi3" "contains_rect region3 roi3"
  by (simp_all add: contains_rect_def roi1_def roi2_def roi3_def region1_def region2_def region3_def)

lemma group_read_ok:
  assumes ok: "image_ok img" and g: "group_ok img job"
    and r: "\<forall>roi \<in> set (snd job). rect_ok roi" and b: "backend_reads img (fst job)"
  shows "\<exists>buf. read img (fst job) None None = Inr buf \<and>
     shape buf = (nat (width (fst job)), nat (height (fst job)), length (band_map img))"
proof -
  from g obtain roi where roi: "roi \<in> set (snd job)" "contains_rect (fst job) roi"
    by (cases "snd job") (auto simp: group_ok_def)
  then have "rect_ok (fst job)" using r by (fastforce simp: rect_ok_def contains_rect_def)
  moreover have "is_open img" "band_map img \<noteq> []" using ok by (simp_all add: image_ok_def)
  moreover have "contains_rect (bounds img) (fst job)" using g by (simp add: group_ok_def)
  ultimately show ?thesis using b by (intro read_all_ok)
qed

lemma process_rois_delivery:
  assumes ok: "image_ok img"
    and inb: "\<forall>roi \<in> set (cells s a). contains_rect (bounds img) roi \<and> rect_ok roi"
    and be: "\<forall>region. backend_reads img region"
  shows "\<exists>r. process_rois img s a = Some r \<and> raised r = None \<and>
      mset (rois_delivered r) = mset (cells s a) \<and>
      (\<forall>c \<in> set (calls_made r).
         \<exists>rr buf. rr \<in> set (reads_issued r) \<and> contains_rect rr (fst c) \<and>
           read img rr None None = Inr buf \<and>
           c = callback_args rr buf (fst c) \<and>
           shape (snd c) = (nat (width (fst c)), nat (height (fst c)), length (band_map img)) \<and>
           (\<forall>i j k. at3 (snd c) i j k =
              at3 buf (nat (min_x (fst c) - min_x rr) + i) (nat (min_y (fst c) - min_y rr) + j) k))"
proof -
  from inb have inb': "\<forall>roi \<in> set (cells s a). contains_rect (bounds img) roi" by simp
  from process_rois_returns [OF ok inb']
  obtain s' jobs where run: "process_rois img s a =
        Some \<lparr>final_store = s', jobs_submitted = jobs,
              calls_made = fst (consume_jobs img jobs []),
              raised = snd (consume_jobs img jobs [])\<rparr>"
    and m: "mset (concat (map snd jobs)) = mset (cells s a)"
    and g: "\<forall>job \<in> set jobs. group_ok img job"
    by blast
  let ?r = "\<lparr>final_store = s', jobs_submitted = jobs,
              calls_made = fst (consume_jobs img jobs []),
              raised = snd (consume_jobs img jobs [])\<rparr>"
  have st: "set (concat (map snd jobs)) = set (cells s a)" using m by (rule mset_eq_setD)
  have rok: "\<forall>job \<in> set jobs. \<forall>roi \<in> set (snd job). rect_ok roi"
  proof (intro ballI)
    fix job roi assume "job \<in> set jobs" "roi \<in> set (snd job)"
    then have "roi \<in> set (concat (map snd jobs))" by auto
    then have "roi \<in> set (cells s a)" by (simp only: st)
    then show "rect_ok roi" using inb by blast
  qed
  have rd: "\<forall>job \<in> set jobs. \<exists>buf. read img (fst job) None None = Inr buf \<and>
     shape buf = (nat (width (fst job)), nat (height (fst job)), length (band_map img))"
    using ok g rok be by (auto intro!: group_read_ok)
  then have rd': "\<forall>job \<in> set jobs. \<exists>buf. read img (fst job) None None = Inr buf" by blast
  from consume_jobs_ok [OF rd', of "[]"]
  have c: "snd (consume_jobs img jobs []) = None"
    "map fst (fst (consume_jobs img jobs [])) = concat (map snd jobs)" by simp_all
  have calls: "\<forall>c \<in> set (calls_made ?r).
         \<exists>rr buf. rr \<in> set (reads_issued ?r) \<and> contains_rect rr (fst c) \<and>
           read img rr None None = Inr buf \<and>
           c = callback_args rr buf (fst c) \<and>
           shape (snd c) = (nat (width (fst c)), nat (height (fst c)), length (band_map img)) \<and>
           (\<forall>i j k. at3 (snd c) i j k =
              at3 buf (nat (min_x (fst c) - min_x rr) + i) (nat (min_y (fst c) - min_y rr) + j) k)"
  proof
    fix c assume "c \<in> set (calls_made ?r)"
    then have "c \<in> set (fst (consume_jobs img jobs []))" by simp
    from consume_jobs_calls [OF this]
    obtain rr rois buf where j: "(rr, rois) \<in> set jobs" "fst c \<in> set rois"
      "read img rr None None = Inr buf" "c = callback_args rr buf (fst c)"
      by auto
    have cr: "contains_rect rr (fst c)" using g j(1,2) by (fastforce simp: group_ok_def)
    have rc: "rect_ok (fst c)" using rok j(1,2) by fastforce
    have sh: "shape buf = (nat (width rr), nat (height rr), length (band_map img))"
      using rd j(1,3) by fastforce
    have "snd (callback_args rr buf (fst c)) =
      \<lparr>dim0 = nat (width (fst c)), dim1 = nat (height (fst c)), dim2 = length (band_map img),
       at3 = (\<lambda>i j k. at3 buf (nat (min_x (fst c) - min_x rr) + i)
                             (nat (min_y (fst c) - min_y rr) + j) k)\<rparr>"
      using cr rc sh by (rule callback_slice)
    then have "shape (snd c) = (nat (width (fst c)), nat (height (fst c)), length (band_map img)) \<and>
           (\<forall>i j k. at3 (snd c) i j k =
              at3 buf (nat (min_x (fst c) - min_x rr) + i) (nat (min_y (fst c) - min_y rr) + j) k)"
      using j(4) by (simp add: shape_def)
    moreover have "rr \<in> set (reads_issued ?r)" using j(1) by (force simp: reads_issued_def)
    ultimately show "\<exists>rr buf. rr \<in> set (reads_issued ?r) \<and> contains_rect rr (fst c) \<and>
           read img rr None None = Inr buf \<and>
           c = callback_args rr buf (fst c) \<and>
           shape (snd c) = (nat (width (fst c)), nat (height (fst c)), length (band_map img)) \<and>
           (\<forall>i j k. at3 (snd c) i j k =
              at3 buf (nat (min_x (fst c) - min_x rr) + i) (nat (min_y (fst c) - min_y rr) + j) k)"
      using cr j(3,4) by blast
  qed
  have "raised ?r = None" using c(1) by simp
  moreover have "mset (rois_delivered ?r) = mset (cells s a)"
    using c(2) m by (simp add: rois_delivered_def)
  ultimately show ?thesis using run calls by blast
qed

lemma failing_image_ok: "image_ok failing_image"
  by (simp add: image_ok_def failing_image_def example_image_def block_x_def block_y_def)

lemma failing_submit_any:
  "cells s b = [roi1, roi2, roi3] \<Longrightarrow>
   \<exists>s'. submit_groups failing_image b s [] =
     Some (s', [(region1, [roi1]), (region2, [roi2]), (region3, [roi3])], None)"
  by (simp add: submit_groups_unfold submit_groups_done failing_aligned failing_contains)

lemma failing_bounds:
  "contains_rect (bounds failing_image) roi1" "contains_rect (bounds failing_image) roi2"
  "contains_rect (bounds failing_image) roi3"
  "contains_rect (bounds failing_image) region1" "contains_rect (bounds failing_image) region2"
  by (simp_all add: contains_rect_def bounds_def Rectangle_def failing_image_def example_image_def
      roi1_def roi2_def roi3_def region1_def region2_def)

lemma failing_read1:
  "\<exists>buf. read failing_image region1 None None = Inr buf"
proof -
  have "is_open failing_image" "band_map failing_image \<noteq> []"
    by (simp_all add: failing_image_def example_image_def)
  moreover have "rect_ok region1" by (simp add: rect_ok_def region1_def)
  moreover have "backend_reads failing_image region1"
    by (simp add: backend_reads_def failing_image_def example_image_def region1_def)
  ultimately show ?thesis using failing_bounds(4) read_all_ok by blast
qed

lemma failing_read2: "read failing_image region2 None None = Inl BackendIOError"
proof -
  have u: "map int [0..<3] = [0, 1, 2]"
    by (simp add: upt_rec)
  have o: "is_open failing_image" by (simp add: failing_image_def example_image_def)
  have g: "gdal_band failing_image 0 = Inr (0, 1)"
    by (simp add: gdal_band_def py_index_def failing_image_def example_image_def)
  have w: "width region2 = 32" "height region2 = 32" "min_y region2 = 32"
    by (simp_all add: width_def height_def region2_def)
  have f: "gdal_read failing_image hb 32 x 32 32 = None" for hb x
    by (simp add: failing_image_def)
  have l: "length (band_map failing_image) = 3" by (simp add: failing_image_def example_image_def)
  show ?thesis
    by (simp add: read_def read'_def o failing_bounds(5) g u w l f zeros_def)
qed

lemma failing_run:
  "\<exists>s' buf. process_rois failing_image (store_with [roi1, roi2, roi3]) 0 =
      Some \<lparr>final_store = s',
            jobs_submitted = [(region1, [roi1]), (region2, [roi2]), (region3, [roi3])],
            calls_made = [callback_args region1 buf roi1],
            raised = Some BackendIOError\<rparr>"
proof -
  let ?s = "store_with [roi1, roi2, roi3]"
  obtain s1 where c: "copy_list ?s 0 = (s1, next_free ?s)" and c1: "cells s1 0 = cells ?s 0"
    and c2: "cells s1 (next_free ?s) = cells ?s 0"
    using copy_list_eq [of ?s 0] by blast
  have cs: "cells ?s 0 = [roi1, roi2, roi3]" by (simp add: store_with_def)
  from failing_submit_any [of s1 "next_free ?s"] c2 cs
  obtain s' where sg: "submit_groups failing_image (next_free ?s) s1 [] =
     Some (s', [(region1, [roi1]), (region2, [roi2]), (region3, [roi3])], None)" by auto
  obtain buf where b: "read failing_image region1 None None = Inr buf" using failing_read1 by blast
  have o: "is_open failing_image" by (simp add: failing_image_def example_image_def)
  have "process_rois failing_image ?s 0 =
      Some \<lparr>final_store = s',
            jobs_submitted = [(region1, [roi1]), (region2, [roi2]), (region3, [roi3])],
            calls_made = [callback_args region1 buf roi1],
            raised = Some BackendIOError\<rparr>"
    using o sg b failing_read2 failing_bounds(1,2,3)
    by (simp add: process_rois_def c c1 cs)
  then show ?thesis by blast
qed

section \<open>Claims about the scheduler\<close>

lemma example_backend: "backend_reads example_image region"
  by (simp add: backend_reads_def example_image_def)

lemma wide_roi_facts:
  "cells (store_with [wide_roi]) 0 = [wide_roi]"
  "contains_rect (bounds example_image) wide_roi" "rect_ok wide_roi"
  "width wide_roi = 50" "height wide_roi = 20"
  by (simp_all add: store_with_def contains_rect_def bounds_def Rectangle_def example_image_def
      rect_ok_def width_def height_def wide_roi_def)

lemma process_rois_shapes:
  assumes "image_ok img"
    and "\<forall>roi \<in> set (cells s a). contains_rect (bounds img) roi \<and> rect_ok roi"
    and "\<forall>region. backend_reads img region"
  shows "\<exists>r. process_rois img s a = Some r \<and> raised r = None \<and>
      mset (rois_delivered r) = mset (cells s a) \<and>
      (\<forall>c \<in> set (calls_made r).
         shape (snd c) = (nat (width (fst c)), nat (height (fst c)), length (band_map img)))"
proof -
  from process_rois_delivery [OF assms]
  obtain r where r: "process_rois img s a = Some r" "raised r = None"
    "mset (rois_delivered r) = mset (cells s a)"
    and c: "\<forall>c \<in> set (calls_made r).
         \<exists>rr buf. rr \<in> set (reads_issued r) \<and> contains_rect rr (fst c) \<and>
           read img rr None None = Inr buf \<and>
           c = callback_args rr buf (fst c) \<and>
           shape (snd c) = (nat (width (fst c)), nat (height (fst c)), length (band_map img)) \<and>
           (\<forall>i j k. at3 (snd c) i j k =
              at3 buf (nat (min_x (fst c) - min_x rr) + i) (nat (min_y (fst c) - min_y rr) + j) k)"
    by blast
  have "\<forall>c \<in> set (calls_made r).
         shape (snd c) = (nat (width (fst c)), nat (height (fst c)), length (band_map img))"
  proof
    fix c0 assume "c0 \<in> set (calls_made r)"
    with c show "shape (snd c0) = (nat (width (fst c0)), nat (height (fst c0)), length (band_map img))"
      by fast
  qed
  then show ?thesis using r by blast
qed

text \<open>
  Claim C2, as stated: the slice passed for an ROI has the spatial shape \<open>(height, width)\<close>
  of the ROI. For the single ROI of width 50 and height 20 on the three-band image, the
  callback gets a buffer of shape \<open>(50, 20, 3)\<close>.
\<close>

theorem callback_shape_counterexample:
  "map_option call_shapes (process_rois example_image (store_with [wide_roi]) 0)
     = Some [(wide_roi, 50, 20, 3)] \<and>
   height wide_roi = 20 \<and> width wide_roi = 50"
proof -
  have inb: "\<forall>roi \<in> set (cells (store_with [wide_roi]) 0).
      contains_rect (bounds example_image) roi \<and> rect_ok roi"
    by (simp add: wide_roi_facts)
  have be: "\<forall>region. backend_reads example_image region" by (simp add: example_backend)
  from process_rois_shapes [OF example_image_ok inb be]
  obtain r where r: "process_rois example_image (store_with [wide_roi]) 0 = Some r"
    and m: "mset (rois_delivered r) = mset (cells (store_with [wide_roi]) 0)"
    and c: "\<forall>c \<in> set (calls_made r).
         shape (snd c) = (nat (width (fst c)), nat (height (fst c)), length (band_map example_image))"
    by blast
  have "rois_delivered r = [wide_roi]"
    using m by (simp add: wide_roi_facts)
  then have "map fst (calls_made r) = [wide_roi]"
    by (simp add: rois_delivered_def)
  then obtain c0 where c0: "calls_made r = [c0]" "fst c0 = wide_roi"
    by (cases "calls_made r") auto
  then have "shape (snd c0) = (50, 20, 3)"
    using c by (simp add: wide_roi_facts example_image_def)
  then have "call_shapes r = [(wide_roi, 50, 20, 3)]"
    using c0 by (simp add: call_shapes_def)
  then show ?thesis using r by (simp add: wide_roi_facts)
qed

text \<open>
  Claim C2, amended. For a list of requested ROIs that are all contained in the image bounds
  (each with \<open>min \<le> max\<close>), on an open image with positive block sizes whose backend
  delivers every region, \<open>process_rois\<close> returns without an exception, the callback is invoked
  exactly once per input ROI, and each invocation passes the slice of the buffer read for its
  group that starts at the offset \<open>sub_roi.min - aligned_region.min\<close> and whose spatial shape
  is the ROI's \<open>(width, height)\<close> exactly, the x axis first.
\<close>

theorem process_rois_one_call_per_roi:
  assumes "image_ok img"
    and "\<forall>roi \<in> set (cells s a). contains_rect (bounds img) roi \<and> rect_ok roi"
    and "\<forall>region. backend_reads img region"
  shows "\<exists>r. process_rois img s a = Some r \<and> raised r = None \<and>
      mset (rois_delivered r) = mset (cells s a) \<and>
      (\<forall>c \<in> set (calls_made r).
         \<exists>rr buf. rr \<in> set (reads_issued r) \<and> read img rr None None = Inr buf \<and>
           snd c = slice_xy buf (min_x (fst c) - min_x rr)
                     (min_x (fst c) - min_x rr + width (fst c))
                     (min_y (fst c) - min_y rr)
                     (min_y (fst c) - min_y rr + height (fst c)) \<and>
           int (dim0 (snd c)) = width (fst c) \<and> int (dim1 (snd c)) = height (fst c) \<and>
           (\<forall>i j k. at3 (snd c) i j k =
              at3 buf (nat (min_x (fst c) - min_x rr) + i) (nat (min_y (fst c) - min_y rr) + j) k))"
proof -
  from process_rois_delivery [OF assms]
  obtain r where r: "process_rois img s a = Some r" "raised r = None"
    "mset (rois_delivered r) = mset (cells s a)"
    and c: "\<forall>c \<in> set (calls_made r).
         \<exists>rr buf. rr \<in> set (reads_issued r) \<and> contains_rect rr (fst c) \<and>
           read img rr None None = Inr buf \<and>
           c = callback_args rr buf (fst c) \<and>
           shape (snd c) = (nat (width (fst c)), nat (height (fst c)), length (band_map img)) \<and>
           (\<forall>i j k. at3 (snd c) i j k =
              at3 buf (nat (min_x (fst c) - min_x rr) + i) (nat (min_y (fst c) - min_y rr) + j) k)"
    by blast
  have st: "set (rois_delivered r) = set (cells s a)" using r(3) by (rule mset_eq_setD)
  have "\<forall>c \<in> set (calls_made r).
         \<exists>rr buf. rr \<in> set (reads_issued r) \<and> read img rr None None = Inr buf \<and>
           snd c = slice_xy buf (min_x (fst c) - min_x rr)
                     (min_x (fst c) - min_x rr + width (fst c))
                     (min_y (fst c) - min_y rr)
                     (min_y (fst c) - min_y rr + height (fst c)) \<and>
           int (dim0 (snd c)) = width (fst c) \<and> int (dim1 (snd c)) = height (fst c) \<and>
           (\<forall>i j k. at3 (snd c) i j k =
              at3 buf (nat (min_x (fst c) - min_x rr) + i) (nat (min_y (fst c) - min_y rr) + j) k)"
  proof
    fix c assume cm: "c \<in> set (calls_made r)"
    then have "fst c \<in> set (rois_delivered r)" by (simp add: rois_delivered_def)
    then have "fst c \<in> set (cells s a)" by (simp only: st)
    then have "rect_ok (fst c)" using assms(2) by blast
    then have w: "0 \<le> width (fst c)" "0 \<le> height (fst c)"
      by (simp_all add: rect_ok_def width_def height_def)
    from c cm obtain rr buf where x: "rr \<in> set (reads_issued r)"
      "read img rr None None = Inr buf" "c = callback_args rr buf (fst c)"
      "shape (snd c) = (nat (width (fst c)), nat (height (fst c)), length (band_map img)) \<and>
           (\<forall>i j k. at3 (snd c) i j k =
              at3 buf (nat (min_x (fst c) - min_x rr) + i) (nat (min_y (fst c) - min_y rr) + j) k)"
      by blast
    have "snd (callback_args rr buf (fst c)) = slice_xy buf (min_x (fst c) - min_x rr)
                     (min_x (fst c) - min_x rr + width (fst c))
                     (min_y (fst c) - min_y rr)
                     (min_y (fst c) - min_y rr + height (fst c))"
      by (simp add: callback_args_def Let_def)
    then have sl: "snd c = slice_xy buf (min_x (fst c) - min_x rr)
                     (min_x (fst c) - min_x rr + width (fst c))
                     (min_y (fst c) - min_y rr)
                     (min_y (fst c) - min_y rr + height (fst c))"
      using x(3) by simp
    have d: "int (dim0 (snd c)) = width (fst c)" "int (dim1 (snd c)) = height (fst c)"
      "\<forall>i j k. at3 (snd c) i j k =
              at3 buf (nat (min_x (fst c) - min_x rr) + i) (nat (min_y (fst c) - min_y rr) + j) k"
      using w x(4) by (simp_all add: shape_def)
    show "\<exists>rr buf. rr \<in> set (reads_issued r) \<and> read img rr None None = Inr buf \<and>
           snd c = slice_xy buf (min_x (fst c) - min_x rr)
                     (min_x (fst c) - min_x rr + width (fst c))
                     (min_y (fst c) - min_y rr)
                     (min_y (fst c) - min_y rr + height (fst c)) \<and>
           int (dim0 (snd c)) = width (fst c) \<and> int (dim1 (snd c)) = height (fst c) \<and>
           (\<forall>i j k. at3 (snd c) i j k =
              at3 buf (nat (min_x (fst c) - min_x rr) + i) (nat (min_y (fst c) - min_y rr) + j) k)"
      using x(1,2) sl d by blast
  qed
  then show ?thesis using r by blast
qed

theorem process_rois_one_call_per_roi_witness:
  "image_ok example_image \<and>
   (\<exists>r. process_rois example_image (store_with [wide_roi]) 0 = Some r \<and> raised r = None \<and>
      rois_delivered r = [wide_roi] \<and>
      (\<exists>c. calls_made r = [c] \<and> int (dim0 (snd c)) = 50 \<and> int (dim1 (snd c)) = 20))"
proof -
  have inb: "\<forall>roi \<in> set (cells (store_with [wide_roi]) 0).
      contains_rect (bounds example_image) roi \<and> rect_ok roi"
    by (simp add: wide_roi_facts)
  have be: "\<forall>region. backend_reads example_image region" by (simp add: example_backend)
  from process_rois_one_call_per_roi [OF example_image_ok inb be]
  obtain r where r: "process_rois example_image (store_with [wide_roi]) 0 = Some r"
    "raised r = None"
    and m: "mset (rois_delivered r) = mset (cells (store_with [wide_roi]) 0)"
    and c: "\<forall>c \<in> set (calls_made r).
         \<exists>rr buf. rr \<in> set (reads_issued r) \<and> read example_image rr None None = Inr buf \<and>
           snd c = slice_xy buf (min_x (fst c) - min_x rr)
                     (min_x (fst c) - min_x rr + width (fst c))
                     (min_y (fst c) - min_y rr)
                     (min_y (fst c) - min_y rr + height (fst c)) \<and>
           int (dim0 (snd c)) = width (fst c) \<and> int (dim1 (snd c)) = height (fst c) \<and>
           (\<forall>i j k. at3 (snd c) i j k =
              at3 buf (nat (min_x (fst c) - min_x rr) + i) (nat (min_y (fst c) - min_y rr) + j) k)"
    by blast
  have d: "rois_delivered r = [wide_roi]" using m by (simp add: wide_roi_facts)
  then obtain c0 where c0: "calls_made r = [c0]" "fst c0 = wide_roi"
    by (cases "calls_made r") (auto simp: rois_delivered_def)
  then have "c0 \<in> set (calls_made r)" by simp
  with c have "\<exists>rr buf. int (dim0 (snd c0)) = width (fst c0) \<and> int (dim1 (snd c0)) = height (fst c0)"
    by fast
  then have "int (dim0 (snd c0)) = 50 \<and> int (dim1 (snd c0)) = 20"
    using c0 by (simp add: wide_roi_facts)
  then show ?thesis using example_image_ok r d c0 by blast
qed

text \<open>
  Claim C5. On an open image, if any requested ROI is not contained in the image bounds,
  \<open>process_rois\<close> fails with \<open>RegionOutOfBoundsError\<close> with no read issued (no job was
  submitted to the executor) and no callback invoked.
\<close>

theorem process_rois_fails_fast:
  assumes "is_open img" and "\<exists>roi \<in> set (cells s a). \<not> contains_rect (bounds img) roi"
  shows "\<exists>r. process_rois img s a = Some r \<and> raised r = Some RegionOutOfBoundsError \<and>
     jobs_submitted r = [] \<and> reads_issued r = [] \<and> calls_made r = []"
proof -
  obtain s1 where c: "copy_list s a = (s1, next_free s)" and c1: "cells s1 a = cells s a"
    using copy_list_eq [of s a] by blast
  have "\<not> list_all (contains_rect (bounds img)) (cells s1 a)"
    using assms(2) by (simp add: list_all_iff c1)
  then show ?thesis using assms(1) by (simp add: process_rois_def c reads_issued_def)
qed

theorem process_rois_fails_fast_witness:
  "is_open example_image \<and>
   \<not> contains_rect (bounds example_image) \<lparr>min_x = 90, min_y = 90, max_x = 101, max_y = 95\<rparr> \<and>
   (\<exists>r. process_rois example_image
           (store_with [roi1, \<lparr>min_x = 90, min_y = 90, max_x = 101, max_y = 95\<rparr>]) 0 = Some r \<and>
        raised r = Some RegionOutOfBoundsError \<and> reads_issued r = [] \<and> calls_made r = [])"
proof -
  let ?bad = "\<lparr>min_x = 90, min_y = 90, max_x = 101, max_y = 95\<rparr>"
  have o: "is_open example_image" by (simp add: example_image_def)
  have n: "\<not> contains_rect (bounds example_image) ?bad"
    by (simp add: contains_rect_def bounds_def Rectangle_def example_image_def)
  then have e: "\<exists>roi \<in> set (cells (store_with [roi1, ?bad]) 0).
      \<not> contains_rect (bounds example_image) roi"
    by (simp add: store_with_def)
  show ?thesis using process_rois_fails_fast [OF o e] o n by blast
qed

text \<open>
  Claim C6, as stated: once a group's read fails, no further read group is issued. With a
  backend that fails on the second of three groups, the third group's read has been issued
  all the same.
\<close>

theorem read_failure_counterexample:
  "map_option reads_issued (process_rois failing_image (store_with [roi1, roi2, roi3]) 0)
     = Some [region1, region2, region3] \<and>
   read failing_image region2 None None = Inl BackendIOError \<and>
   map_option raised (process_rois failing_image (store_with [roi1, roi2, roi3]) 0)
     = Some (Some BackendIOError)"
proof -
  from failing_run obtain s' buf where
    "process_rois failing_image (store_with [roi1, roi2, roi3]) 0 =
      Some \<lparr>final_store = s',
            jobs_submitted = [(region1, [roi1]), (region2, [roi2]), (region3, [roi3])],
            calls_made = [callback_args region1 buf roi1],
            raised = Some BackendIOError\<rparr>"
    by blast
  then show ?thesis by (simp add: reads_issued_def failing_read2)
qed

text \<open>
  Claim C6, amended. \<open>process_rois\<close> submits the read of every group before it awaits the
  first result, so the groups submitted cover all requested ROIs whatever the reads do. When
  the read of a group fails and the reads of all groups before it succeed, the error of that
  read is surfaced to the caller, the callback has been invoked for exactly the ROIs of the
  earlier groups, in order (these invocations are not rolled back), and for no ROI of the
  failing group or a later one. Every buffer passed to the callback is a slice of a buffer
  that a successful read returned.
\<close>

theorem process_rois_read_failure:
  assumes "image_ok img" and "\<forall>roi \<in> set (cells s a). contains_rect (bounds img) roi"
  shows "\<exists>r. process_rois img s a = Some r \<and>
      mset (concat (map snd (jobs_submitted r))) = mset (cells s a) \<and>
      (\<forall>k e. k < length (jobs_submitted r) \<and>
          read img (fst (jobs_submitted r ! k)) None None = Inl e \<and>
          (\<forall>j<k. \<exists>buf. read img (fst (jobs_submitted r ! j)) None None = Inr buf) \<longrightarrow>
            raised r = Some e \<and>
            rois_delivered r = concat (map snd (take k (jobs_submitted r)))) \<and>
      (\<forall>c \<in> set (calls_made r).
         \<exists>rr rois buf. (rr, rois) \<in> set (jobs_submitted r) \<and> fst c \<in> set rois \<and>
           read img rr None None = Inr buf \<and> c = callback_args rr buf (fst c))"
proof -
  from process_rois_returns [OF assms]
  obtain s' jobs where run: "process_rois img s a =
        Some \<lparr>final_store = s', jobs_submitted = jobs,
              calls_made = fst (consume_jobs img jobs []),
              raised = snd (consume_jobs img jobs [])\<rparr>"
    and m: "mset (concat (map snd jobs)) = mset (cells s a)"
    by blast
  let ?r = "\<lparr>final_store = s', jobs_submitted = jobs,
              calls_made = fst (consume_jobs img jobs []),
              raised = snd (consume_jobs img jobs [])\<rparr>"
  have f: "\<forall>k e. k < length (jobs_submitted ?r) \<and>
          read img (fst (jobs_submitted ?r ! k)) None None = Inl e \<and>
          (\<forall>j<k. \<exists>buf. read img (fst (jobs_submitted ?r ! j)) None None = Inr buf) \<longrightarrow>
            raised ?r = Some e \<and>
            rois_delivered ?r = concat (map snd (take k (jobs_submitted ?r)))"
  proof (intro allI impI)
    fix k e
    assume h: "k < length (jobs_submitted ?r) \<and>
          read img (fst (jobs_submitted ?r ! k)) None None = Inl e \<and>
          (\<forall>j<k. \<exists>buf. read img (fst (jobs_submitted ?r ! j)) None None = Inr buf)"
    then have "k < length jobs" "read img (fst (jobs ! k)) None None = Inl e"
      "\<forall>j<k. \<exists>buf. read img (fst (jobs ! j)) None None = Inr buf"
      by simp_all
    from consume_jobs_fail [OF this, of "[]"]
    show "raised ?r = Some e \<and> rois_delivered ?r = concat (map snd (take k (jobs_submitted ?r)))"
      by (simp add: rois_delivered_def)
  qed
  have g: "\<forall>c \<in> set (calls_made ?r).
         \<exists>rr rois buf. (rr, rois) \<in> set (jobs_submitted ?r) \<and> fst c \<in> set rois \<and>
           read img rr None None = Inr buf \<and> c = callback_args rr buf (fst c)"
  proof
    fix c assume "c \<in> set (calls_made ?r)"
    then have "c \<in> set (fst (consume_jobs img jobs []))" by simp
    from consume_jobs_calls [OF this]
    show "\<exists>rr rois buf. (rr, rois) \<in> set (jobs_submitted ?r) \<and> fst c \<in> set rois \<and>
           read img rr None None = Inr buf \<and> c = callback_args rr buf (fst c)"
      by simp
  qed
  have "mset (concat (map snd (jobs_submitted ?r))) = mset (cells s a)" using m by simp
  then show ?thesis using run f g by blast
qed

theorem process_rois_read_failure_witness:
  "image_ok failing_image \<and>
   (\<exists>r. process_rois failing_image (store_with [roi1, roi2, roi3]) 0 = Some r \<and>
      map fst (jobs_submitted r) = [region1, region2, region3] \<and>
      read failing_image region2 None None = Inl BackendIOError \<and>
      raised r = Some BackendIOError \<and> rois_delivered r = [roi1])"
proof -
  have inb: "\<forall>roi \<in> set (cells (store_with [roi1, roi2, roi3]) 0).
      contains_rect (bounds failing_image) roi"
    by (simp add: store_with_def failing_bounds)
  from process_rois_read_failure [OF failing_image_ok inb]
  obtain r where r: "process_rois failing_image (store_with [roi1, roi2, roi3]) 0 = Some r"
    and f: "\<forall>k e. k < length (jobs_submitted r) \<and>
          read failing_image (fst (jobs_submitted r ! k)) None None = Inl e \<and>
          (\<forall>j<k. \<exists>buf. read failing_image (fst (jobs_submitted r ! j)) None None = Inr buf) \<longrightarrow>
            raised r = Some e \<and>
            rois_delivered r = concat (map snd (take k (jobs_submitted r)))"
    by blast
  from failing_run r
  have j: "jobs_submitted r = [(region1, [roi1]), (region2, [roi2]), (region3, [roi3])]"
    by auto
  have "1 < length (jobs_submitted r) \<and>
          read failing_image (fst (jobs_submitted r ! 1)) None None = Inl BackendIOError \<and>
          (\<forall>j<1. \<exists>buf. read failing_image (fst (jobs_submitted r ! j)) None None = Inr buf)"
    using failing_read1 failing_read2 by (simp add: j)
  with f have "raised r = Some BackendIOError \<and>
            rois_delivered r = concat (map snd (take 1 (jobs_submitted r)))"
    by blast
  then have "raised r = Some BackendIOError \<and> rois_delivered r = [roi1]"
    by (simp add: j)
  then show ?thesis using failing_image_ok r j failing_read2 by auto
qed

text \<open>
  Claim C10. \<open>process_rois\<close> never modifies the caller's list: for a list object the caller
  holds (an allocated address), after any call that returns, with or without an exception,
  the list at that address has the elements it had before, in the same order; so has every
  other list allocated before the call. The call returns on a closed image, on a list with an
  ROI outside the bounds, and on an open image with positive block sizes.
\<close>

theorem process_rois_leaves_requested_rois:
  assumes "a < next_free s"
  shows "(\<forall>r. process_rois img s a = Some r \<longrightarrow>
            cells (final_store r) a = cells s a \<and>
            (\<forall>b < next_free s. cells (final_store r) b = cells s b)) \<and>
         (\<not> is_open img \<or> image_ok img \<or>
          (\<exists>roi \<in> set (cells s a). \<not> contains_rect (bounds img) roi) \<longrightarrow>
            (\<exists>r. process_rois img s a = Some r))"
proof (rule conjI)
  show "\<forall>r. process_rois img s a = Some r \<longrightarrow>
            cells (final_store r) a = cells s a \<and>
            (\<forall>b < next_free s. cells (final_store r) b = cells s b)"
  proof (intro allI impI)
    fix r assume run: "process_rois img s a = Some r"
    from process_rois_frame [OF assms run]
    show "cells (final_store r) a = cells s a \<and>
            (\<forall>b < next_free s. cells (final_store r) b = cells s b)"
      using assms by simp
  qed
next
  show "\<not> is_open img \<or> image_ok img \<or>
          (\<exists>roi \<in> set (cells s a). \<not> contains_rect (bounds img) roi) \<longrightarrow>
            (\<exists>r. process_rois img s a = Some r)"
  proof (rule impI)
    assume h: "\<not> is_open img \<or> image_ok img \<or>
          (\<exists>roi \<in> set (cells s a). \<not> contains_rect (bounds img) roi)"
    show "\<exists>r. process_rois img s a = Some r"
    proof (cases "is_open img")
      case False
      then show ?thesis by (simp add: process_rois_def)
    next
      case True
      show ?thesis
      proof (cases "\<exists>roi \<in> set (cells s a). \<not> contains_rect (bounds img) roi")
        case bad: True
        obtain s1 where c: "copy_list s a = (s1, next_free s)" and c1: "cells s1 a = cells s a"
          using copy_list_eq [of s a] by blast
        have "\<not> list_all (contains_rect (bounds img)) (cells s1 a)"
          using bad by (simp add: list_all_iff c1)
        then show ?thesis using True by (simp add: process_rois_def c)
      next
        case False
        then have inb: "\<forall>roi \<in> set (cells s a). contains_rect (bounds img) roi" by simp
        have "image_ok img" using h True False by blast
        from process_rois_returns [OF this inb] show ?thesis by blast
      qed
    qed
  qed
qed

theorem process_rois_leaves_requested_rois_witness:
  "0 < next_free (store_with [roi1, roi2, roi3]) \<and>
   (\<exists>r. process_rois failing_image (store_with [roi1, roi2, roi3]) 0 = Some r \<and>
      raised r = Some BackendIOError \<and> cells (final_store r) 0 = [roi1, roi2, roi3])"
proof -
  have a: "0 < next_free (store_with [roi1, roi2, roi3])" by (simp add: store_with_def)
  from failing_run obtain r where r: "process_rois failing_image (store_with [roi1, roi2, roi3]) 0 = Some r"
    "raised r = Some BackendIOError"
    by auto
  then have "cells (final_store r) 0 = cells (store_with [roi1, roi2, roi3]) 0"
    using process_rois_leaves_requested_rois [OF a, of failing_image] by blast
  then have "cells (final_store r) 0 = [roi1, roi2, roi3]" by (simp add: store_with_def)
  then show ?thesis using a r by blast
qed

end
